theory Spec2Isabelle
  imports Complex_Main "HOL-Library.Word" "HOL-Library.Monad_Syntax"
begin

section \<open>Keypoint detector nodes of speedy-vision: sizing, properties, encoder passes\<close>

text \<open>
  The development follows \<^verbatim>\<open>core/pipeline/nodes/keypoints/detectors/detector.js\<close>,
  \<^verbatim>\<open>core/speedy-keypoint.js\<close> and \<^verbatim>\<open>gpu/kernels/shaders/identity.js\<close>.

  A JavaScript number is a double. The static sizing functions of \<^verbatim>\<open>detector.js\<close> are
  modelled on doubles, every operation rounding as the language says (\<open>encoderLength_double\<close>,
  \<open>encoderCapacity_double\<close>). The encoders pass byte counts, the capacity and the side length on
  to the shaders as integers; they are modelled with the integer function \<open>encoderLength\<close>, whose
  arithmetic is exact. The two agree as long as the sum of the byte counts is below \<open>2^53\<close> and the
  number of pixels below \<open>2^52\<close> (lemma \<open>encoderLength_agree\<close>); beyond, the double computation
  rounds and the integer one is not what the code returns. A result of the integer function
  that is not a number is \<^const>\<open>None\<close>. Numbers written to a property by a caller can be any
  double, so they get a type of their own below.
\<close>

subsection \<open>Constants\<close>

text \<open>
  \<^verbatim>\<open>MIN_KEYPOINT_SIZE\<close>, \<^verbatim>\<open>MIN_ENCODER_LENGTH\<close> and \<^verbatim>\<open>MAX_ENCODER_CAPACITY\<close> are imported
  from \<^verbatim>\<open>utils/globals.js\<close>, which is not among the sources: they are parameters of the model.
\<close>

record globals =
  MIN_KEYPOINT_SIZE :: int
  MIN_ENCODER_LENGTH :: int
  MAX_ENCODER_CAPACITY :: int

definition ENCODER_PASSES :: nat where
  "ENCODER_PASSES = 4"

definition LONG_SKIP_OFFSET_PASSES :: nat where
  "LONG_SKIP_OFFSET_PASSES = 2"

definition MAX_CAPACITY :: "globals \<Rightarrow> int" where
  "MAX_CAPACITY g = MAX_ENCODER_CAPACITY g"

definition DEFAULT_CAPACITY :: int where
  "DEFAULT_CAPACITY = 2048"

definition NUMBER_OF_INTERNAL_TEXTURES :: nat where
  "NUMBER_OF_INTERNAL_TEXTURES = 5"

text \<open>
  A sample of the three imported constants, used where a statement is evaluated. It agrees with
  the comments of \<^verbatim>\<open>detector.js\<close>: a capacity of 2048 gives a 64x64 texture with 2 pixels per
  keypoint, and the default capacity does not exceed the maximum.
\<close>

definition sample_globals :: globals where
  "sample_globals = \<lparr>MIN_KEYPOINT_SIZE = 8, MIN_ENCODER_LENGTH = 2, MAX_ENCODER_CAPACITY = 8192\<rparr>"

subsection \<open>Integer helpers for \<^verbatim>\<open>Math.ceil\<close> and \<^verbatim>\<open>Math.sqrt\<close>\<close>

text \<open>
  \<^verbatim>\<open>Math.ceil(a / b)\<close> on integers \<open>a\<close> and \<open>b > 0\<close>, the quotient being that of the rationals.
  The code divides by 4 only, and a quarter of an integer below \<open>2^53\<close> in magnitude is a
  double (lemma \<open>round_double_quarter\<close>).
\<close>

definition ceil_quot :: "int \<Rightarrow> int \<Rightarrow> int" where
  "ceil_quot a b = - ((- a) div b)"

text \<open>
  The least \<open>k\<close> with \<open>n \<le> k * k\<close>, the ceiling of the real square root of \<open>n \<ge> 0\<close>. It is
  \<^verbatim>\<open>Math.ceil(Math.sqrt(n))\<close> for an integer \<open>0 \<le> n < 2^52\<close> (lemma \<open>Math_ceil_sqrt_exact\<close>);
  from \<open>2^52\<close> on the square root of the code may round down to an integer (lemma
  \<open>round_double_sqrt_tie\<close>).
\<close>

function ceil_sqrt_from :: "int \<Rightarrow> int \<Rightarrow> int" where
  "ceil_sqrt_from n k = (if n \<le> k * k then k else ceil_sqrt_from n (k + 1))"
  by pat_completeness auto
termination
proof (relation "measure (\<lambda>(n, k). nat (n - k))")
  show "wf (measure (\<lambda>(n, k). nat (n - k)))" by simp
next
  fix n k :: int
  assume "\<not> n \<le> k * k"
  moreover have "k \<le> k * k"
  proof (cases "k \<le> 0")
    case True
    have "0 \<le> k * k" by simp
    with True show ?thesis by linarith
  next
    case False
    then have "k * 1 \<le> k * k" by (intro mult_left_mono) simp_all
    then show ?thesis by simp
  qed
  ultimately have "k < n" by linarith
  then show "((n, k + 1), (n, k)) \<in> measure (\<lambda>(n, k). nat (n - k))" by simp
qed

declare ceil_sqrt_from.simps [simp del]

definition ceil_sqrt :: "int \<Rightarrow> int" where
  "ceil_sqrt n = ceil_sqrt_from n 0"

subsection \<open>Sizing of the keypoint encoder\<close>

definition pixelsPerKeypoint :: "globals \<Rightarrow> int \<Rightarrow> int \<Rightarrow> int" where
  "pixelsPerKeypoint g descriptorSize extraSize =
     ceil_quot (MIN_KEYPOINT_SIZE g + descriptorSize + extraSize) 4"

text \<open>
  \<^verbatim>\<open>static encoderLength(encoderCapacity, descriptorSize, extraSize)\<close> on integers, with exact
  arithmetic: the side length that the encoders give to their textures. It is what the code
  computes as long as \<open>MIN_KEYPOINT_SIZE + descriptorSize + extraSize < 2^53\<close> and
  \<open>numberOfPixels < 2^52\<close> (lemma \<open>encoderLength_agree\<close>); the computation of the code on all
  doubles is \<open>encoderLength_double\<close> below. The square root of a negative number of pixels is
  \<open>NaN\<close>, and so is the result.
\<close>

definition encoderLength :: "globals \<Rightarrow> int \<Rightarrow> int \<Rightarrow> int \<Rightarrow> int option" where
  "encoderLength g capacity descriptorSize extraSize =
     (let ppk = pixelsPerKeypoint g descriptorSize extraSize;
          numberOfPixels = capacity * ppk
      in if numberOfPixels < 0 then None
         else Some (max (MIN_ENCODER_LENGTH g) (ceil_sqrt numberOfPixels)))"

text \<open>The sizing formulas in the words of the specification, over the real numbers.\<close>

definition spec_pixelsPerKeypoint :: "globals \<Rightarrow> int \<Rightarrow> int \<Rightarrow> int" where
  "spec_pixelsPerKeypoint g descriptorSize extraSize =
     ceiling (real_of_int (MIN_KEYPOINT_SIZE g + descriptorSize + extraSize) / 4)"


subsection \<open>Numbers\<close>

text \<open>
  A JavaScript number is a finite double, \<open>NaN\<close> or an infinity. A finite double is a rational
  number and is embedded in the reals. The conversions and \<^verbatim>\<open>Math.min\<close>, \<^verbatim>\<open>Math.max\<close> below
  are exact; the arithmetic of the next subsection rounds. The sign of zero is not kept. The
  type has more finite values than there are doubles: \<open>Finite x\<close> is a number of the language
  when \<open>x\<close> is a double, and every operation of the next subsection returns one.
\<close>

datatype number = Finite real | NaN | PosInfinity | NegInfinity

text \<open>Truncation towards zero, the first step of the conversion \<^verbatim>\<open>ToInt32\<close>.\<close>

definition trunc :: "real \<Rightarrow> int" where
  "trunc x = (if x < 0 then ceiling x else floor x)"

text \<open>The integer modulo \<open>2^32\<close>, read as a signed 32-bit value.\<close>

definition wrap32 :: "int \<Rightarrow> int" where
  "wrap32 i = (i + 2 ^ 31) mod 2 ^ 32 - 2 ^ 31"

text \<open>\<^verbatim>\<open>v | 0\<close>: the conversion \<^verbatim>\<open>ToInt32\<close> of ECMAScript (the bitwise or with 0 changes nothing).\<close>

fun ToInt32 :: "number \<Rightarrow> int" where
  "ToInt32 (Finite x) = wrap32 (trunc x)"
| "ToInt32 NaN = 0"
| "ToInt32 PosInfinity = 0"
| "ToInt32 NegInfinity = 0"

text \<open>\<^verbatim>\<open>Math.min\<close> and \<^verbatim>\<open>Math.max\<close> of two numbers: \<open>NaN\<close> if either argument is \<open>NaN\<close>.\<close>

fun Math_min :: "number \<Rightarrow> number \<Rightarrow> number" where
  "Math_min NaN y = NaN"
| "Math_min x NaN = NaN"
| "Math_min NegInfinity y = NegInfinity"
| "Math_min x NegInfinity = NegInfinity"
| "Math_min PosInfinity y = y"
| "Math_min x PosInfinity = x"
| "Math_min (Finite a) (Finite b) = Finite (min a b)"

fun Math_max :: "number \<Rightarrow> number \<Rightarrow> number" where
  "Math_max NaN y = NaN"
| "Math_max x NaN = NaN"
| "Math_max PosInfinity y = PosInfinity"
| "Math_max x PosInfinity = PosInfinity"
| "Math_max NegInfinity y = y"
| "Math_max x NegInfinity = x"
| "Math_max (Finite a) (Finite b) = Finite (max a b)"

subsection \<open>Double arithmetic\<close>

text \<open>
  The arithmetic operations of the language compute the exact result and round it to the nearest
  double, a tie going to the double whose significand is even (IEEE 754 binary64).
  \<open>round_half_even\<close> rounds a real to an integer in that way.
\<close>

definition round_half_even :: "real \<Rightarrow> int" where
  "round_half_even q =
     (let f = \<lfloor>q\<rfloor>; r = q - of_int f
      in if r < 1 / 2 then f else if 1 / 2 < r then f + 1 else if even f then f else f + 1)"

text \<open>
  A double other than zero is \<open>m * 2^(e - 52)\<close> for integers \<open>m\<close> and \<open>e\<close> with
  \<open>2^52 \<le> |m| < 2^53\<close> and \<open>-1022 \<le> e \<le> 1023\<close>, or a subnormal \<open>m * 2^(-1074)\<close> with
  \<open>|m| < 2^52\<close>. For a real \<open>x \<noteq> 0\<close>, \<open>binade x\<close> is the exponent \<open>e\<close> of the doubles around
  \<open>x\<close>, and \<open>ulp x\<close> the distance from one of them to the next.
\<close>

definition binade :: "real \<Rightarrow> int" where
  "binade x = max \<lfloor>log 2 \<bar>x\<bar>\<rfloor> (- 1022)"

definition ulp :: "real \<Rightarrow> real" where
  "ulp x = power_int 2 (binade x - 52)"

text \<open>
  The double nearest to a real. A rounded magnitude of \<open>2^1024\<close> or more is an infinity.
\<close>

definition round_double :: "real \<Rightarrow> number" where
  "round_double x =
     (if x = 0 then Finite 0
      else let y = ulp x * of_int (round_half_even (x / ulp x))
           in if 2 ^ 1024 \<le> \<bar>y\<bar> then (if 0 < x then PosInfinity else NegInfinity)
              else Finite y)"

text \<open>
  \<^verbatim>\<open>a + b\<close>, \<^verbatim>\<open>a * b\<close> and \<^verbatim>\<open>a / b\<close> on numbers. As the sign of zero is not kept, a division
  by zero is a division by the positive zero.
\<close>

fun js_add :: "number \<Rightarrow> number \<Rightarrow> number" where
  "js_add (Finite a) (Finite b) = round_double (a + b)"
| "js_add NaN y = NaN"
| "js_add x NaN = NaN"
| "js_add PosInfinity NegInfinity = NaN"
| "js_add NegInfinity PosInfinity = NaN"
| "js_add PosInfinity y = PosInfinity"
| "js_add x PosInfinity = PosInfinity"
| "js_add NegInfinity y = NegInfinity"
| "js_add x NegInfinity = NegInfinity"

definition signed_infinity :: "bool \<Rightarrow> number" where
  "signed_infinity positive = (if positive then PosInfinity else NegInfinity)"

fun js_mul :: "number \<Rightarrow> number \<Rightarrow> number" where
  "js_mul (Finite a) (Finite b) = round_double (a * b)"
| "js_mul NaN y = NaN"
| "js_mul x NaN = NaN"
| "js_mul (Finite a) PosInfinity = (if a = 0 then NaN else signed_infinity (0 < a))"
| "js_mul (Finite a) NegInfinity = (if a = 0 then NaN else signed_infinity (a < 0))"
| "js_mul PosInfinity (Finite b) = (if b = 0 then NaN else signed_infinity (0 < b))"
| "js_mul NegInfinity (Finite b) = (if b = 0 then NaN else signed_infinity (b < 0))"
| "js_mul PosInfinity PosInfinity = PosInfinity"
| "js_mul PosInfinity NegInfinity = NegInfinity"
| "js_mul NegInfinity PosInfinity = NegInfinity"
| "js_mul NegInfinity NegInfinity = PosInfinity"

fun js_div :: "number \<Rightarrow> number \<Rightarrow> number" where
  "js_div (Finite a) (Finite b) =
     (if b = 0 then (if a = 0 then NaN else signed_infinity (0 < a))
      else round_double (a / b))"
| "js_div NaN y = NaN"
| "js_div x NaN = NaN"
| "js_div (Finite a) PosInfinity = Finite 0"
| "js_div (Finite a) NegInfinity = Finite 0"
| "js_div PosInfinity (Finite b) = signed_infinity (0 \<le> b)"
| "js_div NegInfinity (Finite b) = signed_infinity (b < 0)"
| "js_div PosInfinity y = NaN"
| "js_div NegInfinity y = NaN"

text \<open>
  \<^verbatim>\<open>Math.sqrt\<close>, the correctly rounded square root of IEEE 754, and \<^verbatim>\<open>Math.ceil\<close>,
  \<^verbatim>\<open>Math.floor\<close>: the ceiling and the floor of a double are doubles.
\<close>

fun Math_sqrt :: "number \<Rightarrow> number" where
  "Math_sqrt (Finite a) = (if a < 0 then NaN else round_double (sqrt a))"
| "Math_sqrt NaN = NaN"
| "Math_sqrt PosInfinity = PosInfinity"
| "Math_sqrt NegInfinity = NaN"

fun Math_ceil :: "number \<Rightarrow> number" where
  "Math_ceil (Finite a) = Finite (of_int \<lceil>a\<rceil>)"
| "Math_ceil NaN = NaN"
| "Math_ceil PosInfinity = PosInfinity"
| "Math_ceil NegInfinity = NegInfinity"

fun Math_floor :: "number \<Rightarrow> number" where
  "Math_floor (Finite a) = Finite (of_int \<lfloor>a\<rfloor>)"
| "Math_floor NaN = NaN"
| "Math_floor PosInfinity = PosInfinity"
| "Math_floor NegInfinity = NegInfinity"

text \<open>
  \<^verbatim>\<open>Math.pow(2, v)\<close>: the power, rounded to the nearest double. The language leaves the last
  bit of \<^verbatim>\<open>Math.pow\<close> to the implementation; a power of two with an integer exponent from
  \<open>-1074\<close> to \<open>1023\<close> is a double and needs no rounding.
\<close>

fun Math_pow2 :: "number \<Rightarrow> number" where
  "Math_pow2 (Finite x) = round_double (2 powr x)"
| "Math_pow2 NaN = NaN"
| "Math_pow2 PosInfinity = PosInfinity"
| "Math_pow2 NegInfinity = Finite 0"

subsection \<open>Sizing of the keypoint encoder, on doubles\<close>

text \<open>
  \<^verbatim>\<open>Math.ceil((MIN_KEYPOINT_SIZE + descriptorSize + extraSize) / 4)\<close>, the first line of both
  sizing functions. Each sum and the quotient are rounded.
\<close>

definition pixelsPerKeypoint_double :: "globals \<Rightarrow> number \<Rightarrow> number \<Rightarrow> number" where
  "pixelsPerKeypoint_double g descriptorSize extraSize =
     Math_ceil (js_div
       (js_add (js_add (Finite (of_int (MIN_KEYPOINT_SIZE g))) descriptorSize) extraSize)
       (Finite 4))"

text \<open>\<^verbatim>\<open>static encoderLength(encoderCapacity, descriptorSize, extraSize)\<close>.\<close>

definition encoderLength_double :: "globals \<Rightarrow> number \<Rightarrow> number \<Rightarrow> number \<Rightarrow> number" where
  "encoderLength_double g encoderCapacity descriptorSize extraSize =
     (let ppk = pixelsPerKeypoint_double g descriptorSize extraSize;
          numberOfPixels = js_mul encoderCapacity ppk
      in Math_max (Finite (of_int (MIN_ENCODER_LENGTH g))) (Math_ceil (Math_sqrt numberOfPixels)))"

text \<open>\<^verbatim>\<open>static encoderCapacity(descriptorSize, extraSize, encoderLength)\<close>.\<close>

definition encoderCapacity_double :: "globals \<Rightarrow> number \<Rightarrow> number \<Rightarrow> number \<Rightarrow> number" where
  "encoderCapacity_double g descriptorSize extraSize len =
     (let ppk = pixelsPerKeypoint_double g descriptorSize extraSize;
          numberOfPixels = js_mul len len
      in Math_floor (js_div numberOfPixels ppk))"

subsection \<open>Conversions of a number written to a property\<close>

text \<open>
  32-bit integer truncation, stated with a machine word: the fraction is dropped and the integer
  is reduced to a signed 32-bit word; \<open>NaN\<close> and the infinities give 0.
\<close>

definition trunc32 :: "number \<Rightarrow> int" where
  "trunc32 v = (case v of Finite x \<Rightarrow> sint (word_of_int (trunc x) :: 32 word) | _ \<Rightarrow> 0)"

text \<open>Whether a number lies in the closed interval between two reals.\<close>

fun in_interval :: "real \<Rightarrow> real \<Rightarrow> number \<Rightarrow> bool" where
  "in_interval lo hi (Finite x) = (lo \<le> x \<and> x \<le> hi)"
| "in_interval lo hi NaN = False"
| "in_interval lo hi PosInfinity = False"
| "in_interval lo hi NegInfinity = False"

subsection \<open>Detector nodes and their properties\<close>

type_synonym texid = nat

text \<open>
  The fields of \<^verbatim>\<open>SpeedyPipelineNodeKeypointDetector\<close>: \<^verbatim>\<open>_tex\<close> (the array of work textures
  of the base class, \<open>null\<close> where no texture is held), \<^verbatim>\<open>_capacity\<close> and \<^verbatim>\<open>_oldWrapS\<close>.
  The multiscale detector extends it with \<^verbatim>\<open>_levels\<close> and \<^verbatim>\<open>_scaleFactor\<close>.
\<close>

record detector_node =
  tex :: "texid option list"
  capacity :: int
  oldWrapS :: int

record multiscale_node = detector_node +
  levels :: int
  scaleFactor :: number

text \<open>The literal \<^verbatim>\<open>1.4142135623730951\<close> is the double \<open>6369051672525773 / 2^52\<close>.\<close>

definition DEFAULT_SCALE_FACTOR :: number where
  "DEFAULT_SCALE_FACTOR = Finite (6369051672525773 / 2 ^ 52)"

text \<open>
  Modelled from the spec: the constructor of the base class \<^verbatim>\<open>SpeedyPipelineNode\<close>
  (\<^verbatim>\<open>pipeline-node.js\<close>), which the constructors below call, is not among the sources; the
  node "owns a fixed-size array of work textures allocated at init time", so the array has one
  empty entry for each of the \<open>texCount + NUMBER_OF_INTERNAL_TEXTURES\<close> textures asked for.
\<close>

definition SpeedyPipelineNodeKeypointDetector :: "nat \<Rightarrow> detector_node" where
  "SpeedyPipelineNodeKeypointDetector texCount =
     \<lparr>tex = replicate (texCount + NUMBER_OF_INTERNAL_TEXTURES) None,
      capacity = DEFAULT_CAPACITY,
      oldWrapS = 0\<rparr>"

definition SpeedyPipelineNodeMultiscaleKeypointDetector :: "nat \<Rightarrow> multiscale_node" where
  "SpeedyPipelineNodeMultiscaleKeypointDetector texCount =
     detector_node.extend (SpeedyPipelineNodeKeypointDetector texCount)
       (multiscale_node.fields 1 DEFAULT_SCALE_FACTOR)"

text \<open>\<^verbatim>\<open>set capacity(capacity)\<close>: \<^verbatim>\<open>Math.min(Math.max(0, capacity | 0), MAX_CAPACITY)\<close>.\<close>

definition set_capacity ::
  "globals \<Rightarrow> number \<Rightarrow> 'a detector_node_scheme \<Rightarrow> 'a detector_node_scheme" where
  "set_capacity g v node = node\<lparr>capacity := min (max 0 (ToInt32 v)) (MAX_CAPACITY g)\<rparr>"

text \<open>\<^verbatim>\<open>set levels(levels)\<close>: \<^verbatim>\<open>Math.max(1, levels | 0)\<close>.\<close>

definition set_levels ::
  "number \<Rightarrow> 'a multiscale_node_scheme \<Rightarrow> 'a multiscale_node_scheme" where
  "set_levels v node = node\<lparr>levels := max 1 (ToInt32 v)\<rparr>"

text \<open>
  \<^verbatim>\<open>set scaleFactor(scaleFactor)\<close>: \<^verbatim>\<open>Math.max(1.0, Math.min(+scaleFactor, 2.0))\<close>. The unary
  plus leaves a number as it is.
\<close>

definition set_scaleFactor ::
  "number \<Rightarrow> 'a multiscale_node_scheme \<Rightarrow> 'a multiscale_node_scheme" where
  "set_scaleFactor v node =
     node\<lparr>scaleFactor := Math_max (Finite 1) (Math_min v (Finite 2))\<rparr>"

subsection \<open>Keypoints\<close>

text \<open>
  Modelled from the spec: the class \<^verbatim>\<open>SpeedyPoint2\<close> (\<^verbatim>\<open>speedy-point.js\<close>) is not among the
  sources; the position of a keypoint is the pair of its coordinates.
\<close>

record SpeedyPoint2 =
  point_x :: number
  point_y :: number

text \<open>
  The fields of \<^verbatim>\<open>SpeedyKeypoint\<close>. The descriptor is an object of a class that is not among
  the sources: its type is a parameter, and \<open>null\<close> is \<^const>\<open>None\<close>.
\<close>

record 'd SpeedyKeypoint =
  kp_position :: SpeedyPoint2
  kp_lod :: number
  kp_rotation :: number
  kp_score :: number
  kp_descriptor :: "'d option"

text \<open>
  The constructor. An argument left out is \<^const>\<open>None\<close> and takes its default; the unary plus
  leaves a number as it is.
\<close>

definition new_SpeedyKeypoint ::
  "number \<Rightarrow> number \<Rightarrow> number option \<Rightarrow> number option \<Rightarrow> number option \<Rightarrow> 'd option
     \<Rightarrow> 'd SpeedyKeypoint" where
  "new_SpeedyKeypoint x y lod rotation score descriptor =
     \<lparr>kp_position = \<lparr>point_x = x, point_y = y\<rparr>,
      kp_lod = (case lod of None \<Rightarrow> Finite 0 | Some v \<Rightarrow> v),
      kp_rotation = (case rotation of None \<Rightarrow> Finite 0 | Some v \<Rightarrow> v),
      kp_score = (case score of None \<Rightarrow> Finite 0 | Some v \<Rightarrow> v),
      kp_descriptor = descriptor\<rparr>"

text \<open>The accessors: the class has getters only.\<close>

definition get_position :: "'d SpeedyKeypoint \<Rightarrow> SpeedyPoint2" where
  "get_position k = kp_position k"

definition get_x :: "'d SpeedyKeypoint \<Rightarrow> number" where
  "get_x k = point_x (kp_position k)"

definition get_y :: "'d SpeedyKeypoint \<Rightarrow> number" where
  "get_y k = point_y (kp_position k)"

definition get_lod :: "'d SpeedyKeypoint \<Rightarrow> number" where
  "get_lod k = kp_lod k"

definition get_scale :: "'d SpeedyKeypoint \<Rightarrow> number" where
  "get_scale k = Math_pow2 (kp_lod k)"

definition get_rotation :: "'d SpeedyKeypoint \<Rightarrow> number" where
  "get_rotation k = kp_rotation k"

definition get_score :: "'d SpeedyKeypoint \<Rightarrow> number" where
  "get_score k = kp_score k"

definition get_descriptor :: "'d SpeedyKeypoint \<Rightarrow> 'd option" where
  "get_descriptor k = kp_descriptor k"

subsection \<open>Textures, programs and the GPU state\<close>

text \<open>The programs (compiled kernels) that the detector code configures and runs.\<close>

datatype program =
    Identity
  | EncodeKeypointSkipOffsets
  | EncodeKeypointLongSkipOffsets
  | EncodeKeypointPositions
  | EncodeKeypointProperties
  | EncodeNullKeypoints
  | InitLookupOfLocations
  | ComputeLookupOfLocations
  | InitSumTable
  | ComputeSumTable

text \<open>
  The arguments of a call, as the code writes them: a texture, a number, or an array of numbers.
\<close>

datatype argument = ATex texid | AInt int | AVec "int list"

text \<open>
  Modelled from the spec: what a texture holds. The kernels other than the identity are not among
  the sources; "given identical inputs and uniforms, output is bit-identical", so what a pass
  writes is a function of the program, of what its input textures held and of its uniforms: the
  content records exactly that. The detectors that produce the input of the encoders are not
  among the sources either; their output is "a candidate mask texture where each pixel carries a
  binary is-corner flag", given here by the list of the pixels that carry the flag.
\<close>

datatype content =
    Blank
  | Mask "(int \<times> int) list"
  | Cleared "int list"
  | Rendered program "uniform list"
and uniform = Sampler content | Scalar int | IVector "int list"

type_synonym GLenum = int

definition TEXTURE_WRAP_S :: GLenum where
  "TEXTURE_WRAP_S = 10242"

definition REPEAT :: int where
  "REPEAT = 10497"

record texture =
  width :: int
  height :: int
  parameters :: "GLenum \<Rightarrow> int"
  content :: content

text \<open>The configured output of a program: size, destination textures, and whose turn it is.\<close>

record program_outputs =
  out_width :: int
  out_height :: int
  out_textures :: "texid list"
  out_index :: nat

text \<open>What the code does to the GPU, in order.\<close>

datatype event =
    TexParameteri texid GLenum int
  | Allocate texid
  | Free texid
  | Outputs program int int "texid list"
  | Invoke program "argument list" texid
  | Clear texid "int list"
  | Resize texid int int

record gpu =
  textures :: "texid \<Rightarrow> texture"
  binding :: "texid option"
  outputs_of :: "program \<Rightarrow> program_outputs option"
  pool :: "texid list"
  fresh :: texid
  trace :: "event list"

subsubsection \<open>WebGL texture parameters\<close>

definition bindTexture :: "texid option \<Rightarrow> gpu \<Rightarrow> gpu" where
  "bindTexture t s = s\<lparr>binding := t\<rparr>"

text \<open>
  Without a bound texture WebGL returns \<open>null\<close> and changes nothing; the code below binds a
  texture before every access.
\<close>

definition getTexParameter :: "GLenum \<Rightarrow> gpu \<Rightarrow> int option" where
  "getTexParameter pname s =
     (case binding s of None \<Rightarrow> None | Some t \<Rightarrow> Some (parameters (textures s t) pname))"

definition texParameteri :: "GLenum \<Rightarrow> int \<Rightarrow> gpu \<Rightarrow> gpu" where
  "texParameteri pname param s =
     (case binding s of
        None \<Rightarrow> s
      | Some t \<Rightarrow>
          s\<lparr>textures := (textures s)
               (t := (textures s t)\<lparr>parameters := (parameters (textures s t))(pname := param)\<rparr>),
            trace := trace s @ [TexParameteri t pname param]\<rparr>)"

subsubsection \<open>Programs\<close>

text \<open>
  Modelled from the spec: the class \<^verbatim>\<open>SpeedyProgram\<close> (\<^verbatim>\<open>speedy-program.js\<close>) is not among
  the sources. A pass "is configured once with \<open>outputs(width, height, destination_textures...)\<close>,
  fixing its output shape and targets; it is then invoked one or more times", each invocation
  writing every pixel of a destination; "a texture being read by a pass must not simultaneously
  be its write target", so with several destinations the invocations take them in turn. A
  program that has no destination cannot be invoked.
\<close>

definition outputs :: "program \<Rightarrow> int \<Rightarrow> int \<Rightarrow> texid list \<Rightarrow> gpu \<Rightarrow> gpu" where
  "outputs p w h ts s =
     s\<lparr>outputs_of := (outputs_of s)
          (p \<mapsto> \<lparr>out_width = w, out_height = h, out_textures = ts, out_index = 0\<rparr>),
       trace := trace s @ [Outputs p w h ts]\<rparr>"

definition resolve :: "gpu \<Rightarrow> argument \<Rightarrow> uniform" where
  "resolve s a =
     (case a of
        ATex t \<Rightarrow> Sampler (content (textures s t))
      | AInt i \<Rightarrow> Scalar i
      | AVec v \<Rightarrow> IVector v)"

text \<open>
  What a pass writes. The identity shader of \<^verbatim>\<open>identity.js\<close> is \<^verbatim>\<open>color = currentPixel(image)\<close>:
  its output is its input.
\<close>

definition render :: "program \<Rightarrow> uniform list \<Rightarrow> content" where
  "render p us =
     (case (p, us) of
        (Identity, [Sampler c]) \<Rightarrow> c
      | _ \<Rightarrow> Rendered p us)"

text \<open>The destination whose turn it is, and the state after a pass has written to it.\<close>

definition destination :: "program_outputs \<Rightarrow> texid" where
  "destination out = out_textures out ! (out_index out mod length (out_textures out))"

definition invoked :: "program \<Rightarrow> argument list \<Rightarrow> program_outputs \<Rightarrow> gpu \<Rightarrow> gpu" where
  "invoked p args out s =
     s\<lparr>textures := (textures s)
          (destination out := (textures s (destination out))
             \<lparr>width := out_width out, height := out_height out,
              content := render p (map (resolve s) args)\<rparr>),
       outputs_of := (outputs_of s)
          (p \<mapsto> out\<lparr>out_index := (out_index out + 1) mod length (out_textures out)\<rparr>),
       trace := trace s @ [Invoke p args (destination out)]\<rparr>"

text \<open>The invocation returns the texture it has written to.\<close>

definition invoke :: "program \<Rightarrow> argument list \<Rightarrow> gpu \<Rightarrow> (texid \<times> gpu) option" where
  "invoke p args s =
     (case outputs_of s p of
        None \<Rightarrow> None
      | Some out \<Rightarrow>
          if out_textures out = [] then None
          else Some (destination out, invoked p args out s))"

text \<open>
  Modelled from the spec: the class \<^verbatim>\<open>SpeedyDrawableTexture\<close> (\<^verbatim>\<open>speedy-texture.js\<close>) is not
  among the sources. \<^verbatim>\<open>clear\<close> fills the texture with the colour given, \<^verbatim>\<open>resize\<close> gives it a
  new size; both return the texture they are called on, so the model returns the new state only.
\<close>

definition clear :: "texid \<Rightarrow> int list \<Rightarrow> gpu \<Rightarrow> gpu" where
  "clear t colour s =
     s\<lparr>textures := (textures s)(t := (textures s t)\<lparr>content := Cleared colour\<rparr>),
       trace := trace s @ [Clear t colour]\<rparr>"

definition resize :: "texid \<Rightarrow> int \<Rightarrow> int \<Rightarrow> gpu \<Rightarrow> gpu" where
  "resize t w h s =
     s\<lparr>textures := (textures s)(t := (textures s t)\<lparr>width := w, height := h, content := Blank\<rparr>),
       trace := trace s @ [Resize t w h]\<rparr>"

subsubsection \<open>The texture pool and the base class of the nodes\<close>

text \<open>
  Modelled from the spec: the texture pool and \<^verbatim>\<open>SpeedyPipelineNode\<close> (\<^verbatim>\<open>pipeline-node.js\<close>)
  are not among the sources. \<open>acquire\<close> "returns a free texture of matching shape or allocates a
  new one"; \<open>release\<close> "returns it to the free set without clearing contents". The \<open>init\<close> of
  a node "allocates this node's fixed pool of work textures", and its \<open>release\<close> returns the
  "owned textures to the Pool".
\<close>

definition acquire :: "gpu \<Rightarrow> texid \<times> gpu" where
  "acquire s =
     (case pool s of
        t # ts \<Rightarrow> (t, s\<lparr>pool := ts, trace := trace s @ [Allocate t]\<rparr>)
      | [] \<Rightarrow> (fresh s, s\<lparr>fresh := Suc (fresh s), trace := trace s @ [Allocate (fresh s)]\<rparr>))"

fun acquire_many :: "nat \<Rightarrow> gpu \<Rightarrow> texid list \<times> gpu" where
  "acquire_many 0 s = ([], s)"
| "acquire_many (Suc n) s =
     (let (t, s1) = acquire s; (ts, s2) = acquire_many n s1 in (t # ts, s2))"

definition free :: "texid \<Rightarrow> gpu \<Rightarrow> gpu" where
  "free t s = s\<lparr>pool := t # pool s, trace := trace s @ [Free t]\<rparr>"

fun free_all :: "texid option list \<Rightarrow> gpu \<Rightarrow> gpu" where
  "free_all [] s = s"
| "free_all (None # ts) s = free_all ts s"
| "free_all (Some t # ts) s = free_all ts (free t s)"

definition super_init ::
  "'a detector_node_scheme \<Rightarrow> gpu \<Rightarrow> 'a detector_node_scheme \<times> gpu" where
  "super_init node s =
     (let (ts, s1) = acquire_many (length (tex node)) s in (node\<lparr>tex := map Some ts\<rparr>, s1))"

definition super_release ::
  "'a detector_node_scheme \<Rightarrow> gpu \<Rightarrow> 'a detector_node_scheme \<times> gpu" where
  "super_release node s =
     (node\<lparr>tex := replicate (length (tex node)) None\<rparr>, free_all (tex node) s)"

subsection \<open>Life cycle of a detector node\<close>

text \<open>
  \<^verbatim>\<open>_setupSpecialTexture(pname, param)\<close>. The special texture is the last of \<^verbatim>\<open>_tex\<close>; reading
  a field of \<open>undefined\<close> (empty array) or of \<open>null\<close> (no texture held) throws.
\<close>

definition setupSpecialTexture ::
  "'a detector_node_scheme \<Rightarrow> GLenum \<Rightarrow> int \<Rightarrow> gpu \<Rightarrow> (int \<times> gpu) option" where
  "setupSpecialTexture node pname param s =
     (if tex node = [] then None
      else case last (tex node) of
        None \<Rightarrow> None
      | Some texture \<Rightarrow> do {
          let s1 = bindTexture (Some texture) s;
          oldval \<leftarrow> getTexParameter pname s1;
          let s2 = texParameteri pname param s1;
          let s3 = bindTexture None s2;
          Some (oldval, s3)
        })"

text \<open>\<^verbatim>\<open>init(gpu)\<close>.\<close>

definition init :: "'a detector_node_scheme \<Rightarrow> gpu \<Rightarrow> ('a detector_node_scheme \<times> gpu) option" where
  "init node s = do {
     let (node1, s1) = super_init node s;
     (oldval, s2) \<leftarrow> setupSpecialTexture node1 TEXTURE_WRAP_S REPEAT s1;
     Some (node1\<lparr>oldWrapS := oldval\<rparr>, s2)
   }"

text \<open>\<^verbatim>\<open>release(gpu)\<close>.\<close>

definition release ::
  "'a detector_node_scheme \<Rightarrow> gpu \<Rightarrow> ('a detector_node_scheme \<times> gpu) option" where
  "release node s = do {
     (_, s1) \<leftarrow> setupSpecialTexture node TEXTURE_WRAP_S (oldWrapS node) s;
     Some (super_release node s1)
   }"

subsection \<open>The keypoint encoders\<close>

text \<open>\<^verbatim>\<open>xs.slice(b)\<close>: a negative start counts from the end of the array.\<close>

definition slice_from :: "'a list \<Rightarrow> int \<Rightarrow> 'a list" where
  "slice_from xs b =
     (let n = int (length xs);
          k = (if b < 0 then max (n + b) 0 else min b n)
      in drop (nat k) xs)"

text \<open>\<^verbatim>\<open>this._tex.slice(this._tex.length - NUMBER_OF_INTERNAL_TEXTURES)\<close>.\<close>

definition internal_textures :: "'a detector_node_scheme \<Rightarrow> texid option list" where
  "internal_textures node =
     slice_from (tex node) (int (length (tex node)) - int NUMBER_OF_INTERNAL_TEXTURES)"

text \<open>
  The skip-offset encoder pops the special texture off the array and uses \<^verbatim>\<open>tex[0]\<close> to
  \<^verbatim>\<open>tex[3]\<close>; the prefix-sum encoder uses \<^verbatim>\<open>tex[0]\<close> to \<^verbatim>\<open>tex[3]\<close> only. A texture that is
  \<open>undefined\<close> or \<open>null\<close> where one is used is an error.
\<close>

definition with_special ::
  "texid option list \<Rightarrow> (texid \<times> texid \<times> texid \<times> texid \<times> texid) option" where
  "with_special ts =
     (case ts of
        [Some t0, Some t1, Some t2, Some t3, Some special] \<Rightarrow> Some (t0, t1, t2, t3, special)
      | _ \<Rightarrow> None)"

definition without_special ::
  "texid option list \<Rightarrow> (texid \<times> texid \<times> texid \<times> texid) option" where
  "without_special ts =
     (case ts of
        [Some t0, Some t1, Some t2, Some t3, _] \<Rightarrow> Some (t0, t1, t2, t3)
      | _ \<Rightarrow> None)"

text \<open>The loop over \<^verbatim>\<open>LONG_SKIP_OFFSET_PASSES\<close> of \<^verbatim>\<open>_encodeKeypoints\<close>.\<close>

function long_skip_loop ::
  "nat \<Rightarrow> int list \<Rightarrow> texid \<Rightarrow> gpu \<Rightarrow> (texid \<times> gpu) option" where
  "long_skip_loop i imageSize offsets s =
     (if i < LONG_SKIP_OFFSET_PASSES then
        (case invoke EncodeKeypointLongSkipOffsets [ATex offsets, AVec imageSize] s of
           None \<Rightarrow> None
         | Some (offsets1, s1) \<Rightarrow> long_skip_loop (Suc i) imageSize offsets1 s1)
      else Some (offsets, s))"
  by pat_completeness auto
termination
  by (relation "measure (\<lambda>(i, imageSize, offsets, s). LONG_SKIP_OFFSET_PASSES - i)") auto

declare long_skip_loop.simps [simp del]

text \<open>The loop over \<^verbatim>\<open>ENCODER_PASSES\<close> of \<^verbatim>\<open>_encodeKeypoints\<close>.\<close>

function positions_loop ::
  "nat \<Rightarrow> texid \<Rightarrow> int list \<Rightarrow> int \<Rightarrow> int \<Rightarrow> int \<Rightarrow> int \<Rightarrow> texid \<Rightarrow> gpu
     \<Rightarrow> (texid \<times> gpu) option" where
  "positions_loop j offsets imageSize cap descriptorSize extraSize len encodedKps s =
     (if j < ENCODER_PASSES then
        (case invoke EncodeKeypointPositions
                [ATex offsets, AVec imageSize, AInt (int j), AInt (int ENCODER_PASSES), AInt cap,
                 ATex encodedKps, AInt descriptorSize, AInt extraSize, AInt len] s of
           None \<Rightarrow> None
         | Some (encodedKps1, s1) \<Rightarrow>
             positions_loop (Suc j) offsets imageSize cap descriptorSize extraSize len
               encodedKps1 s1)
      else Some (encodedKps, s))"
  by pat_completeness auto
termination
  by (relation "measure (\<lambda>(j, rest). ENCODER_PASSES - j)") auto

declare positions_loop.simps [simp del]

text \<open>\<^verbatim>\<open>_encodeKeypoints(gpu, corners, encodedKeypoints, descriptorSize, extraSize)\<close>.\<close>

definition encodeKeypoints ::
  "globals \<Rightarrow> 'a detector_node_scheme \<Rightarrow> texid \<Rightarrow> texid \<Rightarrow> int \<Rightarrow> int \<Rightarrow> gpu
     \<Rightarrow> (texid \<times> gpu) option" where
  "encodeKeypoints g node corners encodedKeypoints descriptorSize extraSize s = do {
     let cap = capacity node;
     len \<leftarrow> encoderLength g cap descriptorSize extraSize;
     let w = width (textures s corners);
     let h = height (textures s corners);
     let imageSize = [w, h];
     (t0, t1, t2, t3, specialTexture) \<leftarrow> with_special (internal_textures node);
     let s1 = outputs EncodeKeypointSkipOffsets w h [t0] s;
     let s2 = outputs EncodeKeypointLongSkipOffsets w h [t1, t0] s1;
     let s3 = outputs EncodeKeypointPositions len len [t2, t3] s2;
     let s4 = outputs EncodeKeypointProperties len len [encodedKeypoints] s3;
     (corners1, s5) \<leftarrow> invoke Identity [ATex corners] (outputs Identity w h [specialTexture] s4);
     (offsets, s6) \<leftarrow> invoke EncodeKeypointSkipOffsets [ATex corners1, AVec imageSize] s5;
     (offsets1, s7) \<leftarrow> long_skip_loop 0 imageSize offsets s6;
     let encodedKps = t3;
     let s8 = clear t3 [] s7;
     (encodedKps1, s9) \<leftarrow>
        positions_loop 0 offsets1 imageSize cap descriptorSize extraSize len encodedKps s8;
     invoke EncodeKeypointProperties
       [ATex corners1, ATex encodedKps1, AInt descriptorSize, AInt extraSize, AInt len] s9
   }"

text \<open>
  \<^verbatim>\<open>Math.ceil(Math.log2(n))\<close> on an integer: the least \<open>k\<close> with \<open>n \<le> 2^k\<close>. For \<open>n \<le> 0\<close>
  the logarithm is \<open>-Infinity\<close> or \<open>NaN\<close>, which the shifts and the loop bound of
  \<^verbatim>\<open>_encodeKeypoints2\<close> treat as 0 does.
\<close>

function ceil_log2_from :: "int \<Rightarrow> nat \<Rightarrow> nat" where
  "ceil_log2_from n k = (if n \<le> 2 ^ k then k else ceil_log2_from n (Suc k))"
  by pat_completeness auto
termination
proof (relation "measure (\<lambda>(n, k). nat n - 2 ^ k)")
  show "wf (measure (\<lambda>(n, k). nat n - 2 ^ k))" by simp
next
  fix n :: int and k :: nat
  assume "\<not> n \<le> 2 ^ k"
  then have "int (2 ^ k) < n" by simp
  then have less: "(2::nat) ^ k < nat n" by linarith
  have pos: "(0::nat) < 2 ^ k" by simp
  have "(2::nat) ^ Suc k = 2 ^ k + 2 ^ k" by simp
  with less pos have "nat n - 2 ^ Suc k < nat n - 2 ^ k" by linarith
  then show "((n, Suc k), (n, k)) \<in> measure (\<lambda>(n, k). nat n - 2 ^ k)" by simp
qed

declare ceil_log2_from.simps [simp del]

definition ceil_log2 :: "int \<Rightarrow> int" where
  "ceil_log2 n = int (ceil_log2_from n 0)"

text \<open>\<^verbatim>\<open>1 << k\<close>: the shift count is taken modulo 32 and the result is a signed 32-bit value.\<close>

definition shl1 :: "int \<Rightarrow> int" where
  "shl1 k = wrap32 (2 ^ nat (k mod 32))"

text \<open>The loop over \<^verbatim>\<open>npasses\<close> of \<^verbatim>\<open>_encodeKeypoints2\<close>.\<close>

function tables_loop ::
  "int \<Rightarrow> int \<Rightarrow> int \<Rightarrow> texid \<Rightarrow> texid \<Rightarrow> gpu \<Rightarrow> (texid \<times> texid \<times> gpu) option" where
  "tables_loop i npasses stride sumTable lookupTable s =
     (if i < npasses then
        (let prevSumTable = sumTable; blockSize = shl1 i in
         case invoke ComputeSumTable
                [ATex prevSumTable, AInt blockSize, AInt (2 * blockSize), AInt stride] s of
           None \<Rightarrow> None
         | Some (sumTable1, s1) \<Rightarrow>
             (case invoke ComputeLookupOfLocations
                     [ATex lookupTable, ATex sumTable1, ATex prevSumTable,
                      AInt blockSize, AInt (2 * blockSize), AInt stride] s1 of
                None \<Rightarrow> None
              | Some (lookupTable1, s2) \<Rightarrow>
                  tables_loop (i + 1) npasses stride sumTable1 lookupTable1 s2))
      else Some (sumTable, lookupTable, s))"
  by pat_completeness auto
termination
  by (relation "measure (\<lambda>(i, npasses, rest). nat (npasses - i))") auto

declare tables_loop.simps [simp del]

text \<open>\<^verbatim>\<open>_encodeKeypoints2(gpu, corners, encodedKeypoints, descriptorSize, extraSize)\<close>.\<close>

definition encodeKeypoints2 ::
  "globals \<Rightarrow> 'a detector_node_scheme \<Rightarrow> texid \<Rightarrow> texid \<Rightarrow> int \<Rightarrow> int \<Rightarrow> gpu
     \<Rightarrow> (texid \<times> gpu) option" where
  "encodeKeypoints2 g node corners encodedKeypoints descriptorSize extraSize s = do {
     let cap = capacity node;
     len \<leftarrow> encoderLength g cap descriptorSize extraSize;
     let w = width (textures s corners);
     let h = height (textures s corners);
     (t0, t1, t2, t3) \<leftarrow> without_special (internal_textures node);
     let exp2 = ceil_log2 (w * h);
     let paddedWidth = shl1 (exp2 div 2);
     let paddedHeight = shl1 (exp2 div 2 + exp2 mod 2);
     let s1 = outputs InitLookupOfLocations paddedWidth paddedHeight [t1] s;
     let s2 = outputs ComputeLookupOfLocations paddedWidth paddedHeight [t0, t1] s1;
     let s3 = outputs InitSumTable paddedWidth paddedHeight [t3] s2;
     let s4 = outputs ComputeSumTable paddedWidth paddedHeight [t2, t3] s3;
     let stride = paddedWidth;
     (sumTable, s5) \<leftarrow> invoke InitSumTable [ATex corners, AInt stride] s4;
     (lookupTable, s6) \<leftarrow> invoke InitLookupOfLocations [ATex corners, AInt stride] s5;
     let npasses = exp2;
     (sumTable1, lookupTable1, s7) \<leftarrow> tables_loop 0 npasses stride sumTable lookupTable s6;
     let s8 = resize encodedKeypoints len len s7;
     Some (encodedKeypoints, clear encodedKeypoints [1, 1, 1, 1] s8)
   }"

text \<open>\<^verbatim>\<open>_encodeZeroKeypoints(gpu, encodedKeypoints, descriptorSize, extraSize)\<close>.\<close>

definition encodeZeroKeypoints ::
  "globals \<Rightarrow> texid \<Rightarrow> int \<Rightarrow> int \<Rightarrow> gpu \<Rightarrow> (texid \<times> gpu) option" where
  "encodeZeroKeypoints g encodedKeypoints descriptorSize extraSize s = do {
     let cap = 0;
     len \<leftarrow> encoderLength g cap descriptorSize extraSize;
     let s1 = outputs EncodeNullKeypoints len len [encodedKeypoints] s;
     (_, s2) \<leftarrow> invoke EncodeNullKeypoints [] s1;
     Some (encodedKeypoints, s2)
   }"

subsection \<open>Reading a trace and a texture\<close>

text \<open>The programs invoked, in order, and the arguments of the invocations of one program.\<close>

fun invocations :: "event list \<Rightarrow> program list" where
  "invocations [] = []"
| "invocations (Invoke p args t # es) = p # invocations es"
| "invocations (e # es) = invocations es"

fun passes_of :: "program \<Rightarrow> event list \<Rightarrow> argument list list" where
  "passes_of p [] = []"
| "passes_of p (Invoke q args t # es) =
     (if q = p then args # passes_of p es else passes_of p es)"
| "passes_of p (e # es) = passes_of p es"



text \<open>
  Modelled from the spec: the kernel \<^verbatim>\<open>encodeKeypointPositions\<close> is not among the sources. It is
  given the index of the pass and the number of passes, and the passes split the slot indices
  "by pass index": every slot below the capacity has one pass in which it is resolved. Which
  pass that is, is a parameter.
\<close>

definition resolved_slots :: "(int \<Rightarrow> int) \<Rightarrow> int \<Rightarrow> int \<Rightarrow> int set" where
  "resolved_slots targetPass cap passId = {q \<in> {0..<cap}. targetPass q = passId}"

subsection \<open>Auxiliary notions and a sample state\<close>

text \<open>A program is configured when it has an output with at least one destination.\<close>

definition configured :: "program \<Rightarrow> gpu \<Rightarrow> bool" where
  "configured p s =
     (case outputs_of s p of None \<Rightarrow> False | Some out \<Rightarrow> out_textures out \<noteq> [])"

text \<open>The parameters of all the textures of a state.\<close>

definition texture_parameters :: "gpu \<Rightarrow> texid \<Rightarrow> GLenum \<Rightarrow> int" where
  "texture_parameters s = (\<lambda>t. parameters (textures s t))"

text \<open>The textures that an array of work textures holds.\<close>

fun held :: "texid option list \<Rightarrow> texid list" where
  "held [] = []"
| "held (None # ts) = held ts"
| "held (Some t # ts) = t # held ts"

text \<open>
  The pass index and the pass count among the arguments of a call of
  \<^verbatim>\<open>encodeKeypointPositions\<close>: the third and the fourth argument.
\<close>

definition pass_arguments :: "argument list \<Rightarrow> (argument \<times> argument) option" where
  "pass_arguments args =
     (case args of
        a # b # passId # numPasses # rest \<Rightarrow> Some (passId, numPasses)
      | _ \<Rightarrow> None)"

text \<open>
  The events of one run of the skip-offset encoder, for an input of size \<open>w\<close> by \<open>h\<close>, the
  work textures \<open>t0\<close> to \<open>t3\<close> and the special texture.
\<close>

definition skip_offset_events ::
  "int \<Rightarrow> int \<Rightarrow> int \<Rightarrow> int \<Rightarrow> int \<Rightarrow> int \<Rightarrow> texid \<times> texid \<times> texid \<times> texid \<times> texid
     \<Rightarrow> texid \<Rightarrow> texid \<Rightarrow> event list" where
  "skip_offset_events w h len cap descriptorSize extraSize work corners encodedKeypoints =
     (case work of (t0, t1, t2, t3, special) \<Rightarrow>
        [Outputs EncodeKeypointSkipOffsets w h [t0],
         Outputs EncodeKeypointLongSkipOffsets w h [t1, t0],
         Outputs EncodeKeypointPositions len len [t2, t3],
         Outputs EncodeKeypointProperties len len [encodedKeypoints],
         Outputs Identity w h [special],
         Invoke Identity [ATex corners] special,
         Invoke EncodeKeypointSkipOffsets [ATex special, AVec [w, h]] t0,
         Invoke EncodeKeypointLongSkipOffsets [ATex t0, AVec [w, h]] t1,
         Invoke EncodeKeypointLongSkipOffsets [ATex t1, AVec [w, h]] t0,
         Clear t3 [],
         Invoke EncodeKeypointPositions
           [ATex t0, AVec [w, h], AInt 0, AInt 4, AInt cap, ATex t3,
            AInt descriptorSize, AInt extraSize, AInt len] t2,
         Invoke EncodeKeypointPositions
           [ATex t0, AVec [w, h], AInt 1, AInt 4, AInt cap, ATex t2,
            AInt descriptorSize, AInt extraSize, AInt len] t3,
         Invoke EncodeKeypointPositions
           [ATex t0, AVec [w, h], AInt 2, AInt 4, AInt cap, ATex t3,
            AInt descriptorSize, AInt extraSize, AInt len] t2,
         Invoke EncodeKeypointPositions
           [ATex t0, AVec [w, h], AInt 3, AInt 4, AInt cap, ATex t2,
            AInt descriptorSize, AInt extraSize, AInt len] t3,
         Invoke EncodeKeypointProperties
           [ATex special, ATex t3, AInt descriptorSize, AInt extraSize, AInt len]
           encodedKeypoints])"

text \<open>What the texture returned by an encoder holds.\<close>

definition result_content :: "(texid \<times> gpu) option \<Rightarrow> content option" where
  "result_content r = map_option (\<lambda>(t, s). content (textures s t)) r"

text \<open>
  A state to evaluate statements on: every texture is 64 by 64 with the wrap mode
  \<^verbatim>\<open>CLAMP_TO_EDGE\<close> (33071); texture 10 holds the mask given, the others nothing; the pool is
  empty and the textures from 12 on have never been handed out. The sample node is what \<open>init\<close>
  makes on that state of a detector constructed with no work textures of its own.
\<close>

definition sample_gpu :: "content \<Rightarrow> gpu" where
  "sample_gpu corners =
     \<lparr>textures = (\<lambda>t. \<lparr>width = 64, height = 64, parameters = (\<lambda>pname. 33071),
                          content = (if t = 10 then corners else Blank)\<rparr>),
      binding = None,
      outputs_of = (\<lambda>p. None),
      pool = [],
      fresh = 12,
      trace = []\<rparr>"

definition sample_node :: detector_node where
  "sample_node =
     \<lparr>tex = [Some 12, Some 13, Some 14, Some 15, Some 16],
      capacity = 2048,
      oldWrapS = 33071\<rparr>"

section \<open>Properties\<close>

subsection \<open>The integer helpers compute the real-number operations\<close>

lemma ceil_sqrt_from_spec:
  "n \<le> ceil_sqrt_from n k * ceil_sqrt_from n k \<and> k \<le> ceil_sqrt_from n k \<and>
   (\<forall>j. k \<le> j \<and> j < ceil_sqrt_from n k \<longrightarrow> j * j < n)"
proof (induction n k rule: ceil_sqrt_from.induct)
  case (1 n k)
  show ?case
  proof (cases "n \<le> k * k")
    case True
    then show ?thesis by (simp add: ceil_sqrt_from.simps [of n k])
  next
    case False
    from 1 [OF False] have IH: "n \<le> ceil_sqrt_from n (k + 1) * ceil_sqrt_from n (k + 1)"
      "k + 1 \<le> ceil_sqrt_from n (k + 1)"
      "\<And>j. k + 1 \<le> j \<Longrightarrow> j < ceil_sqrt_from n (k + 1) \<Longrightarrow> j * j < n" by auto
    have eq: "ceil_sqrt_from n k = ceil_sqrt_from n (k + 1)"
      using False by (simp add: ceil_sqrt_from.simps [of n k])
    show ?thesis
    proof (intro conjI allI impI)
      show "n \<le> ceil_sqrt_from n k * ceil_sqrt_from n k" using IH(1) eq by simp
      show "k \<le> ceil_sqrt_from n k" using IH(2) eq by simp
    next
      fix j assume j: "k \<le> j \<and> j < ceil_sqrt_from n k"
      show "j * j < n"
      proof (cases "j = k")
        case True then show ?thesis using False by simp
      next
        case False
        then have "k + 1 \<le> j" using j by simp
        then show ?thesis using IH(3) [of j] j eq by simp
      qed
    qed
  qed
qed

lemma ceil_sqrt_ge: "n \<le> ceil_sqrt n * ceil_sqrt n"
  using ceil_sqrt_from_spec [of n 0] by (simp add: ceil_sqrt_def)

lemma ceil_sqrt_nonneg: "0 \<le> ceil_sqrt n"
  using ceil_sqrt_from_spec [of n 0] by (simp add: ceil_sqrt_def)

lemma ceil_sqrt_least: "0 \<le> j \<Longrightarrow> j < ceil_sqrt n \<Longrightarrow> j * j < n"
  using ceil_sqrt_from_spec [of n 0] by (simp add: ceil_sqrt_def)


lemma ceil_quot_real: "ceil_quot a 4 = ceiling (real_of_int a / 4)"
  using ceiling_divide_eq_div [where 'a = real, of a 4] by (simp add: ceil_quot_def)

lemma pixelsPerKeypoint_pos:
  assumes "0 < MIN_KEYPOINT_SIZE g" "0 \<le> descriptorSize" "0 \<le> extraSize"
  shows "0 < pixelsPerKeypoint g descriptorSize extraSize"
proof -
  have "- (MIN_KEYPOINT_SIZE g + descriptorSize + extraSize) < 0" using assms by linarith
  then have "- (MIN_KEYPOINT_SIZE g + descriptorSize + extraSize) div 4 < 0"
    by (rule div_neg_pos_less0) simp
  then show ?thesis unfolding pixelsPerKeypoint_def ceil_quot_def by linarith
qed

lemma pixelsPerKeypoint_nonneg:
  assumes "0 \<le> MIN_KEYPOINT_SIZE g" "0 \<le> descriptorSize" "0 \<le> extraSize"
  shows "0 \<le> pixelsPerKeypoint g descriptorSize extraSize"
proof -
  have "- (MIN_KEYPOINT_SIZE g + descriptorSize + extraSize) \<le> 0" using assms by linarith
  then have "- (MIN_KEYPOINT_SIZE g + descriptorSize + extraSize) div 4 \<le> 0"
    by (simp only: div_nonpos_pos_le0)
  then show ?thesis unfolding pixelsPerKeypoint_def ceil_quot_def by linarith
qed

lemma square_mono_int: "0 \<le> a \<Longrightarrow> a \<le> b \<Longrightarrow> a * a \<le> b * (b::int)"
  by (rule mult_mono) simp_all

subsection \<open>Rounding to a double\<close>

text \<open>Rounding to an integer stays between the floor and the ceiling.\<close>

lemma rhe_of_int: "round_half_even (of_int z) = z"
  by (simp add: round_half_even_def)

lemma rhe_ge_floor: "\<lfloor>q\<rfloor> \<le> round_half_even q"
  by (simp add: round_half_even_def Let_def)

lemma rhe_le_floor1: "round_half_even q \<le> \<lfloor>q\<rfloor> + 1"
  by (simp add: round_half_even_def Let_def)

lemma rhe_ge:
  assumes "of_int z \<le> q" shows "z \<le> round_half_even q"
proof -
  have "z \<le> \<lfloor>q\<rfloor>" using assms by (simp add: le_floor_iff)
  with rhe_ge_floor [of q] show ?thesis by linarith
qed

lemma rhe_le: 
  assumes "q \<le> of_int z" shows "round_half_even q \<le> z"
proof (cases "q = of_int z")
  case True then show ?thesis by (simp add: rhe_of_int)
next
  case False
  with assms have "q < of_int z" by simp
  then have "\<lfloor>q\<rfloor> < z" by (simp add: floor_less_iff)
  with rhe_le_floor1 [of q] show ?thesis by linarith
qed

lemma rhe_lt:
  assumes "q < of_int z - 1 / 2" shows "round_half_even q < z"
proof -
  have "q < of_int z" using assms by linarith
  then have f: "\<lfloor>q\<rfloor> < z" by (simp add: floor_less_iff)
  show ?thesis
  proof (cases "\<lfloor>q\<rfloor> = z - 1")
    case True
    then have "q - of_int \<lfloor>q\<rfloor> < 1 / 2" using assms by simp
    then have "round_half_even q = \<lfloor>q\<rfloor>" by (simp add: round_half_even_def Let_def)
    with f show ?thesis by simp
  next
    case False
    with f have "\<lfloor>q\<rfloor> + 1 < z" by linarith
    with rhe_le_floor1 [of q] show ?thesis by linarith
  qed
qed

lemma rhe_low:
  assumes "of_int z \<le> q" and "q < of_int z + 1 / 2" shows "round_half_even q = z"
proof -
  have "\<lfloor>q\<rfloor> = z" using assms by (intro floor_unique) linarith+
  then show ?thesis using assms by (simp add: round_half_even_def Let_def)
qed

lemma rhe_half:
  assumes "0 \<le> q" and "q \<le> 1 / 2" shows "round_half_even q = 0"
proof -
  have f: "\<lfloor>q\<rfloor> = 0" using assms by (intro floor_unique) simp_all
  show ?thesis using assms f by (simp add: round_half_even_def Let_def)
qed

text \<open>The binade of a real, from the powers of two around it.\<close>

lemma two_powr_int: "2 powr real_of_int k = power_int (2::real) k"
  by (rule powr_real_of_int') simp_all

lemma floor_log2_spec:
  assumes "0 < x"
  shows "power_int 2 \<lfloor>log 2 x\<rfloor> \<le> x \<and> x < power_int 2 (\<lfloor>log 2 x\<rfloor> + 1)"
proof -
  have "2 powr real_of_int \<lfloor>log 2 x\<rfloor> \<le> x \<and> x < 2 powr (real_of_int \<lfloor>log 2 x\<rfloor> + 1)"
    using floor_log_eq_powr_iff [of x 2 "\<lfloor>log 2 x\<rfloor>"] assms by simp
  moreover have "real_of_int \<lfloor>log 2 x\<rfloor> + 1 = real_of_int (\<lfloor>log 2 x\<rfloor> + 1)" by simp
  ultimately show ?thesis by (simp only: two_powr_int)
qed

lemma floor_log2_ge:
  assumes "0 < x" and "power_int 2 a \<le> x" shows "a \<le> \<lfloor>log 2 x\<rfloor>"
proof (rule ccontr)
  assume "\<not> a \<le> \<lfloor>log 2 x\<rfloor>"
  then have "\<lfloor>log 2 x\<rfloor> + 1 \<le> a" by simp
  then have "power_int (2::real) (\<lfloor>log 2 x\<rfloor> + 1) \<le> power_int 2 a"
    by (rule power_int_increasing) simp
  with floor_log2_spec [OF assms(1)] assms(2) show False by linarith
qed

lemma floor_log2_lt:
  assumes "0 < x" and "x < power_int 2 b" shows "\<lfloor>log 2 x\<rfloor> < b"
proof (rule ccontr)
  assume "\<not> \<lfloor>log 2 x\<rfloor> < b"
  then have "b \<le> \<lfloor>log 2 x\<rfloor>" by simp
  then have "power_int (2::real) b \<le> power_int 2 \<lfloor>log 2 x\<rfloor>"
    by (rule power_int_increasing) simp
  with floor_log2_spec [OF assms(1)] assms(2) show False by linarith
qed

lemma binade_abs: "binade \<bar>x\<bar> = binade x"
  by (simp add: binade_def)

lemma ulp_abs: "ulp \<bar>x\<bar> = ulp x"
  by (simp add: ulp_def binade_abs)

lemma ulp_pos: "0 < ulp x"
  by (simp add: ulp_def)

lemma binade_normal:
  assumes "0 < x" and "power_int 2 a \<le> x" and "x < power_int 2 b" and "- 1022 \<le> a"
  shows "a \<le> binade x \<and> binade x < b \<and>
         power_int 2 (binade x) \<le> x \<and> x < power_int 2 (binade x + 1)"
proof -
  have ge: "a \<le> \<lfloor>log 2 x\<rfloor>" using assms(1,2) by (rule floor_log2_ge)
  have lt: "\<lfloor>log 2 x\<rfloor> < b" using assms(1,3) by (rule floor_log2_lt)
  have b: "binade x = \<lfloor>log 2 x\<rfloor>" using ge assms(1,4) by (simp add: binade_def)
  show ?thesis using ge lt floor_log2_spec [OF assms(1)] by (simp add: b)
qed

lemma binade_subnormal:
  assumes "0 < x" and "x < power_int 2 (- 1022)" shows "binade x = - 1022"
proof -
  have "\<lfloor>log 2 x\<rfloor> < - 1022" using assms by (rule floor_log2_lt)
  then show ?thesis using assms(1) by (simp add: binade_def)
qed

text \<open>
  A real on the grid of its binade is a double and rounds to itself: the integers below
  \<open>2^53\<close> in magnitude, their quarters, and the powers of two of the double range.
\<close>

lemma round_double_grid:
  assumes "x \<noteq> 0" and "of_int z * ulp x = x" and "\<bar>x\<bar> < 2 ^ 1024"
  shows "round_double x = Finite x"
proof -
  have "x / ulp x = of_int z" using assms(2) ulp_pos [of x] by (simp add: field_simps)
  then have "ulp x * of_int (round_half_even (x / ulp x)) = x"
    using assms(2) by (simp add: rhe_of_int mult.commute)
  then show ?thesis using assms(1,3) by (simp add: round_double_def Let_def)
qed

lemma power_int_nat: "0 \<le> k \<Longrightarrow> power_int (2::real) k = 2 ^ nat k"
  by (simp add: power_int_def)

lemma power_int_split:
  fixes t e :: int
  assumes "e \<le> t + 52"
  shows "power_int (2::real) t = of_int (2 ^ nat (t - e + 52)) * power_int 2 (e - 52)"
proof -
  have "power_int (2::real) t = power_int 2 ((t - e + 52) + (e - 52))" by simp
  also have "\<dots> = power_int 2 (t - e + 52) * power_int 2 (e - 52)"
    by (rule power_int_add) simp
  also have "power_int (2::real) (t - e + 52) = 2 ^ nat (t - e + 52)"
    using assms by (intro power_int_nat) simp
  finally show ?thesis by simp
qed

lemma round_double_dyadic:
  assumes m: "m \<noteq> 0" "\<bar>m\<bar> < 2 ^ 53" and t: "- 1022 \<le> t"
    and fin: "\<bar>of_int m * power_int 2 t\<bar> < (2::real) ^ 1024"
  shows "round_double (of_int m * power_int 2 t) = Finite (of_int m * power_int 2 t)"
proof -
  define x :: real where "x = of_int m * power_int 2 t"
  have ax: "\<bar>x\<bar> = of_int \<bar>m\<bar> * power_int 2 t" by (simp add: x_def abs_mult)
  have pos: "0 < \<bar>x\<bar>" using m(1) by (simp add: x_def)
  have "1 \<le> \<bar>m\<bar>" using m(1) by simp
  then have "(1::real) \<le> of_int \<bar>m\<bar>" by (simp only: of_int_1_le_iff)
  then have "1 * power_int 2 t \<le> of_int \<bar>m\<bar> * power_int (2::real) t"
    by (intro mult_right_mono) simp_all
  then have lo: "power_int 2 t \<le> \<bar>x\<bar>" by (simp add: ax)
  have "real_of_int \<bar>m\<bar> < 2 ^ 53" using m(2) by (simp only: of_int_less_numeral_power_cancel_iff)
  then have "of_int \<bar>m\<bar> * power_int (2::real) t < 2 ^ 53 * power_int 2 t"
    by (intro mult_strict_right_mono) simp_all
  also have "(2::real) ^ 53 * power_int 2 t = power_int 2 (t + 53)"
    by (simp add: power_int_add)
  finally have hi: "\<bar>x\<bar> < power_int 2 (t + 53)" by (simp add: ax)
  from binade_normal [OF pos lo hi t] have e: "binade x < t + 53" by (simp add: binade_abs)
  then have le: "binade x \<le> t + 52" by simp
  have sp: "power_int (2::real) t =
      of_int (2 ^ nat (t - binade x + 52)) * power_int 2 (binade x - 52)"
    using le by (rule power_int_split)
  have "of_int (m * 2 ^ nat (t - binade x + 52)) * ulp x =
      of_int m * (of_int (2 ^ nat (t - binade x + 52)) * power_int 2 (binade x - 52))"
    by (simp only: ulp_def of_int_mult mult.assoc)
  also have "\<dots> = of_int m * power_int 2 t" by (simp only: sp)
  finally have eq: "of_int (m * 2 ^ nat (t - binade x + 52)) * ulp x = x" by (simp only: x_def)
  have ne: "x \<noteq> 0" using pos by simp
  have "\<bar>x\<bar> < 2 ^ 1024" using fin by (simp only: x_def)
  with ne eq have "round_double x = Finite x" by (rule round_double_grid)
  then show ?thesis by (simp add: x_def)
qed

lemma round_double_int:
  assumes "\<bar>i\<bar> < 2 ^ 53" shows "round_double (of_int i) = Finite (of_int i)"
proof (cases "i = 0")
  case True then show ?thesis by (simp add: round_double_def)
next
  case False
  have "real_of_int \<bar>i\<bar> < 2 ^ 53" using assms by (simp only: of_int_less_numeral_power_cancel_iff)
  also have "\<dots> < (2::real) ^ 1024" by simp
  finally have "\<bar>real_of_int i * power_int 2 0\<bar> < 2 ^ 1024" by simp
  from round_double_dyadic [OF False assms _ this] show ?thesis by simp
qed

lemma round_double_quarter:
  assumes "\<bar>i\<bar> < 2 ^ 53" shows "round_double (of_int i / 4) = Finite (of_int i / 4)"
proof (cases "i = 0")
  case True then show ?thesis by (simp add: round_double_def)
next
  case False
  have q: "real_of_int i * power_int 2 (- 2) = of_int i / 4" by (simp add: power_int_minus)
  have "real_of_int \<bar>i\<bar> < 2 ^ 53" using assms by (simp only: of_int_less_numeral_power_cancel_iff)
  then have "\<bar>real_of_int i / 4\<bar> < 2 ^ 1024" by simp
  then have "\<bar>real_of_int i * power_int 2 (- 2)\<bar> < 2 ^ 1024" by (simp only: q)
  from round_double_dyadic [OF False assms _ this] show ?thesis by (simp add: q)
qed

lemma round_double_pow2:
  assumes "- 1074 \<le> n" and "n \<le> 1023"
  shows "round_double (power_int 2 n) = Finite (power_int 2 n)"
proof (cases "- 1022 \<le> n")
  case True
  have "power_int (2::real) n \<le> power_int 2 1023" using assms(2) by (intro power_int_increasing) simp_all
  also have "\<dots> < (2::real) ^ 1024" by simp
  finally have "\<bar>of_int 1 * power_int (2::real) n\<bar> < 2 ^ 1024" by simp
  from round_double_dyadic [OF _ _ True this] show ?thesis by simp
next
  case False
  define x :: real where "x = power_int 2 n"
  have pos: "0 < x" by (simp add: x_def)
  have "x < power_int 2 (- 1022)" unfolding x_def using False
    by (intro power_int_strict_increasing) simp_all
  with pos have b: "binade x = - 1022" by (rule binade_subnormal)
  have u: "ulp x = power_int 2 (- 1074)"
  proof -
    have "(- 1022 :: int) - 52 = - 1074" by simp
    then show ?thesis by (simp only: ulp_def b)
  qed
  have "power_int (2::real) n = power_int 2 ((n + 1074) + (- 1074))" by simp
  also have "\<dots> = power_int 2 (n + 1074) * power_int 2 (- 1074)" by (rule power_int_add) simp
  also have "power_int (2::real) (n + 1074) = of_int (2 ^ nat (n + 1074))"
    using assms(1) by (simp only: power_int_nat of_int_power of_int_numeral)
  finally have "of_int (2 ^ nat (n + 1074)) * power_int 2 (- 1074) = x"
    by (simp only: x_def)
  then have eq: "of_int (2 ^ nat (n + 1074)) * ulp x = x" by (simp only: u)
  have ne: "x \<noteq> 0" using pos by simp
  have "\<bar>x\<bar> < 2 ^ 1024"
  proof -
    have "x \<le> power_int 2 1023" unfolding x_def using assms(2) by (intro power_int_increasing) simp_all
    also have "\<dots> < (2::real) ^ 1024" by simp
    finally show ?thesis using pos by simp
  qed
  with ne eq have "round_double x = Finite x" by (rule round_double_grid)
  then show ?thesis by (simp only: x_def)
qed

text \<open>Overflow to infinity and underflow to zero.\<close>

lemma round_double_overflow:
  assumes "2 ^ 1024 \<le> x" shows "round_double x = PosInfinity"
proof -
  have pos: "0 < x" using assms by (rule order.strict_trans2 [rotated]) simp
  have lo: "power_int 2 1024 \<le> x" using assms by simp
  have e: "1024 \<le> \<lfloor>log 2 x\<rfloor>" using pos lo by (rule floor_log2_ge)
  then have b: "binade x = \<lfloor>log 2 x\<rfloor>" using pos by (simp add: binade_def)
  have s: "power_int 2 (binade x) \<le> x" using floor_log2_spec [OF pos] by (simp add: b)
  have split: "power_int (2::real) (binade x) = 2 ^ 52 * ulp x"
  proof -
    have "power_int (2::real) (binade x) = power_int 2 (52 + (binade x - 52))" by simp
    also have "\<dots> = power_int 2 52 * power_int 2 (binade x - 52)" by (rule power_int_add) simp
    finally show ?thesis by (simp add: ulp_def)
  qed
  have "of_int (2 ^ 52) * ulp x \<le> x" using s by (simp only: split of_int_power of_int_numeral)
  then have "of_int (2 ^ 52) \<le> x / ulp x" using ulp_pos [of x] by (simp only: pos_le_divide_eq)
  then have "2 ^ 52 \<le> round_half_even (x / ulp x)" by (rule rhe_ge)
  then have "real_of_int (2 ^ 52) \<le> of_int (round_half_even (x / ulp x))"
    by (simp only: of_int_le_iff)
  then have "ulp x * of_int (2 ^ 52) \<le> ulp x * of_int (round_half_even (x / ulp x))"
    using ulp_pos [of x] by (intro mult_left_mono) simp_all
  then have "power_int 2 (binade x) \<le> ulp x * of_int (round_half_even (x / ulp x))"
    by (simp only: split of_int_power of_int_numeral mult.commute)
  moreover have "power_int (2::real) 1024 \<le> power_int 2 (binade x)"
    using e b by (intro power_int_increasing) simp_all
  ultimately have "power_int 2 1024 \<le> ulp x * of_int (round_half_even (x / ulp x))"
    by (rule order.trans [rotated])
  then have "2 ^ 1024 \<le> \<bar>ulp x * of_int (round_half_even (x / ulp x))\<bar>" by simp
  then show ?thesis using pos by (simp add: round_double_def Let_def)
qed

lemma round_double_underflow:
  assumes "0 < x" and "x \<le> power_int 2 (- 1075)" shows "round_double x = Finite 0"
proof -
  have "power_int (2::real) (- 1075) < power_int 2 (- 1022)"
    by (intro power_int_strict_increasing) simp_all
  with assms(2) have "x < power_int 2 (- 1022)" by linarith
  with assms(1) have b: "binade x = - 1022" by (rule binade_subnormal)
  have u: "ulp x = power_int 2 (- 1074)" by (simp add: ulp_def b)
  have "power_int (2::real) (- 1075) = power_int 2 (- 1074) / 2"
    by (simp add: power_int_minus field_simps)
  then have "x / ulp x \<le> 1 / 2" using assms(2) by (simp add: u field_simps)
  moreover have "0 \<le> x / ulp x" using assms(1) ulp_pos [of x] by simp
  ultimately have "round_half_even (x / ulp x) = 0" by (intro rhe_half)
  then show ?thesis using assms(1) by (simp add: round_double_def Let_def)
qed

lemma ulp_scale:
  assumes "binade x \<le> 52" shows "of_int (2 ^ nat (52 - binade x)) * ulp x = 1"
proof -
  have "binade x \<le> 0 + 52" using assms by simp
  from power_int_split [OF this] show ?thesis by (simp add: ulp_def)
qed

text \<open>
  The square root of an integer below \<open>2^52\<close> that is not a square rounds to a double strictly
  between the two integers around it: doubles below \<open>2^26\<close> are at most \<open>2^(-27)\<close> apart, and the
  root lies further than that above the integer below it.
\<close>

lemma round_double_sqrt:
  assumes k: "1 \<le> k" "k < 2 ^ 26" and lo: "k * k < n" and hi: "n < (k + 1) * (k + 1)"
  shows "\<exists>y. round_double (sqrt (of_int n)) = Finite y \<and> of_int k < y \<and> y \<le> of_int k + 1"
proof -
  define x where "x = sqrt (real_of_int n)"
  have "0 \<le> k * k" by simp
  with lo have n0: "0 \<le> n" by linarith
  have x2: "x\<^sup>2 = of_int n" using n0 by (simp add: x_def)
  have x0: "0 \<le> x" by (simp add: x_def n0)
  have "(real_of_int k)\<^sup>2 < of_int n"
    using lo by (simp only: power2_eq_square flip: of_int_mult) 
  then have xk: "of_int k < x" unfolding x_def by (rule real_less_rsqrt)
  have "real_of_int n < (of_int k + 1)\<^sup>2"
  proof -
    have "real_of_int n < of_int ((k + 1) * (k + 1))" using hi by (simp only: of_int_less_iff)
    then show ?thesis by (simp add: power2_eq_square)
  qed
  then have xc: "x < of_int k + 1" unfolding x_def using k(1) by (intro real_less_lsqrt) simp_all
  have rk: "1 \<le> real_of_int k" using k(1) by simp
  have pos: "0 < x" using xk rk by linarith
  have "1 \<le> x" using xk rk by linarith
  then have lo2: "power_int 2 0 \<le> x" by simp
  have "real_of_int k + 1 \<le> 2 ^ 26"
  proof -
    have "k + 1 \<le> 2 ^ 26" using k(2) by simp
    then have "real_of_int (k + 1) \<le> 2 ^ 26" by (simp only: of_int_le_numeral_power_cancel_iff)
    then show ?thesis by simp
  qed
  then have hi2: "x < power_int 2 26" using xc by simp
  from binade_normal [OF pos lo2 hi2] have e: "0 \<le> binade x" "binade x < 26" by simp_all
  define S :: int where "S = 2 ^ nat (52 - binade x)"
  have uS: "of_int S * ulp x = 1" unfolding S_def using e(2) by (intro ulp_scale) simp
  have S27: "2 ^ 27 \<le> S"
  proof -
    have "(2::int) ^ 27 \<le> 2 ^ nat (52 - binade x)" using e(2) by (intro power_increasing) simp_all
    then show ?thesis by (simp only: S_def)
  qed
  have Spos: "0 < S" using S27 by simp
  have q: "x / ulp x = x * of_int S"
  proof -
    have "x / ulp x = x * (of_int S * ulp x) / ulp x" by (simp only: uS mult_1_right)
    also have "\<dots> = x * of_int S" using ulp_pos [of x] by simp
    finally show ?thesis .
  qed
  let ?r = "round_half_even (x / ulp x)"
  have up: "?r \<le> (k + 1) * S"
  proof (rule rhe_le)
    have "x * of_int S \<le> (of_int k + 1) * of_int S"
      using xc Spos by (intro mult_right_mono) simp_all
    then show "x / ulp x \<le> real_of_int ((k + 1) * S)" by (simp add: q)
  qed
  have dn: "k * S + 1 \<le> ?r"
  proof (rule rhe_ge)
    have a: "2 * k + 1 \<le> S" using k(2) S27 by simp
    define A B C where "A = k * k * (S * S)" and "B = 2 * k * S" and "C = S * S"
    have "(k * S + 1) * (k * S + 1) = A + (B + 1)"
      by (simp add: A_def B_def algebra_simps)
    moreover have "B + 1 \<le> (2 * k + 1) * S" using Spos by (simp add: B_def algebra_simps)
    moreover have "(2 * k + 1) * S \<le> C"
      unfolding C_def using a Spos by (intro mult_right_mono) simp_all
    moreover have "(k * k + 1) * (S * S) \<le> n * (S * S)"
      using lo Spos by (intro mult_right_mono) simp_all
    moreover have "(k * k + 1) * (S * S) = A + C" by (simp add: A_def C_def algebra_simps)
    ultimately have "(k * S + 1) * (k * S + 1) \<le> n * (S * S)" by (simp only:)
    then have "real_of_int ((k * S + 1) * (k * S + 1)) \<le> of_int (n * (S * S))"
      by (simp only: of_int_le_iff)
    moreover have "(x * of_int S)\<^sup>2 = real_of_int (n * (S * S))"
    proof -
      have "(x * of_int S)\<^sup>2 = x\<^sup>2 * (of_int S * of_int S)"
        by (simp add: power2_eq_square algebra_simps)
      then show ?thesis by (simp only: x2 of_int_mult)
    qed
    ultimately have "(real_of_int (k * S + 1))\<^sup>2 \<le> (x * of_int S)\<^sup>2"
      by (simp only: power2_eq_square [of "real_of_int (k * S + 1)"] of_int_mult)
    moreover have "0 \<le> x * of_int S" using x0 Spos by simp
    ultimately have "real_of_int (k * S + 1) \<le> x * of_int S" by (rule power2_le_imp_le)
    then show "real_of_int (k * S + 1) \<le> x / ulp x" by (simp only: q)
  qed
  define y where "y = ulp x * of_int ?r"
  have yu: "y \<le> of_int k + 1"
  proof -
    have "real_of_int ?r \<le> of_int ((k + 1) * S)" using up by (simp only: of_int_le_iff)
    then have "y \<le> ulp x * of_int ((k + 1) * S)"
      unfolding y_def using ulp_pos [of x] by (intro mult_left_mono) simp_all
    also have "\<dots> = (of_int k + 1) * (of_int S * ulp x)" by (simp add: algebra_simps)
    also have "\<dots> = of_int k + 1" by (simp only: uS mult_1_right)
    finally show ?thesis .
  qed
  have yl: "of_int k < y"
  proof -
    have "real_of_int (k * S + 1) \<le> of_int ?r" using dn by (simp only: of_int_le_iff)
    then have "ulp x * of_int (k * S + 1) \<le> y"
      unfolding y_def using ulp_pos [of x] by (intro mult_left_mono) simp_all
    moreover have "ulp x * of_int (k * S + 1) = of_int k * (of_int S * ulp x) + ulp x"
      by (simp add: algebra_simps)
    then have "ulp x * of_int (k * S + 1) = of_int k + ulp x" by (simp only: uS mult_1_right)
    ultimately have "of_int k + ulp x \<le> y" by (simp only:)
    then show ?thesis using ulp_pos [of x] by linarith
  qed
  have "\<bar>y\<bar> < 2 ^ 1024"
  proof -
    have "\<bar>y\<bar> \<le> 2 ^ 26" using yl yu rk \<open>real_of_int k + 1 \<le> 2 ^ 26\<close> by linarith
    also have "\<dots> < (2::real) ^ 1024" by simp
    finally show ?thesis .
  qed
  then have "round_double x = Finite y" using pos by (simp add: round_double_def Let_def y_def)
  then show ?thesis using yl yu by (simp add: x_def)
qed

text \<open>
  The quotient of two positive integers below \<open>2^53\<close> rounds to a double with the same floor.
\<close>

lemma binade_ulp: "power_int (2::real) (binade x) = 2 ^ 52 * ulp x"
proof -
  have "power_int (2::real) (binade x) = power_int 2 (52 + (binade x - 52))" by simp
  also have "\<dots> = power_int 2 52 * power_int 2 (binade x - 52)" by (rule power_int_add) simp
  finally show ?thesis by (simp add: ulp_def)
qed

lemma round_double_quotient:
  assumes n: "0 < n" "n < 2 ^ 53" and p: "0 < p" "p < 2 ^ 53"
  shows "\<exists>y. round_double (of_int n / of_int p) = Finite y \<and> \<lfloor>y\<rfloor> = n div p"
proof -
  define x where "x = real_of_int n / of_int p"
  define j where "j = n div p"
  have rp: "0 < real_of_int p" using p(1) by simp
  have rn: "1 \<le> real_of_int n" using n(1) by simp
  have pos: "0 < x" using n(1) p(1) by (simp add: x_def)
  have fl: "\<lfloor>x\<rfloor> = j" unfolding x_def j_def by (rule floor_divide_of_int_eq)
  have xj: "of_int j \<le> x" using of_int_floor_le [of x] by (simp only: fl)
  have "n < (j + 1) * p"
  proof -
    have "n = j * p + n mod p" by (simp add: j_def)
    moreover have "n mod p < p" using p(1) by simp
    ultimately show ?thesis by (simp add: algebra_simps)
  qed
  then have "n + 1 \<le> (j + 1) * p" by simp
  then have "real_of_int (n + 1) \<le> of_int ((j + 1) * p)" by (simp only: of_int_le_iff)
  then have "real_of_int n + 1 \<le> (of_int j + 1) * of_int p" by simp
  then have "(real_of_int n + 1) / of_int p \<le> of_int j + 1" using rp by (simp add: pos_divide_le_eq)
  then have xj1: "x + 1 / of_int p \<le> of_int j + 1" by (simp add: x_def add_divide_distrib)
  have p53: "real_of_int p < 2 ^ 53" using p(2) by (simp only: of_int_less_numeral_power_cancel_iff)
  have n53: "real_of_int n < 2 ^ 53" using n(2) by (simp only: of_int_less_numeral_power_cancel_iff)
  have lo: "power_int 2 (- 53) \<le> x"
  proof -
    have "1 / (2::real) ^ 53 \<le> 1 / of_int p" using rp p53 by (intro divide_left_mono) simp_all
    also have "\<dots> \<le> real_of_int n / of_int p" using rn rp by (intro divide_right_mono) simp_all
    finally show ?thesis by (simp add: x_def power_int_minus inverse_eq_divide)
  qed
  have hi: "x < power_int 2 53"
  proof -
    have "x \<le> real_of_int n"
    proof -
      have "real_of_int n / of_int p \<le> real_of_int n / 1"
        using rn rp p(1) by (intro divide_left_mono) simp_all
      then show ?thesis by (simp add: x_def)
    qed
    then show ?thesis using n53 by simp
  qed
  from binade_normal [OF pos lo hi] have e: "binade x < 53" and xe: "power_int 2 (binade x) \<le> x"
    by simp_all
  define S :: int where "S = 2 ^ nat (52 - binade x)"
  have uS: "of_int S * ulp x = 1" unfolding S_def using e by (intro ulp_scale) simp
  have Spos: "0 < S" by (simp add: S_def)
  have q: "x / ulp x = x * of_int S"
  proof -
    have "x / ulp x = x * (of_int S * ulp x) / ulp x" by (simp only: uS mult_1_right)
    also have "\<dots> = x * of_int S" using ulp_pos [of x] by simp
    finally show ?thesis .
  qed
  have p2S: "real_of_int p < 2 * of_int S"
  proof -
    have "2 ^ 52 * ulp x \<le> real_of_int n / of_int p" using xe by (simp only: binade_ulp x_def)
    then have "2 ^ 52 * ulp x * of_int p \<le> real_of_int n" using rp by (simp add: pos_le_divide_eq)
    then have "(2 ^ 52 * ulp x * of_int p) * of_int S \<le> real_of_int n * of_int S"
      using Spos by (intro mult_right_mono) simp_all
    moreover have "(2 ^ 52 * ulp x * of_int p) * of_int S = 2 ^ 52 * of_int p * (of_int S * ulp x)"
      by (simp add: algebra_simps)
    ultimately have "2 ^ 52 * real_of_int p \<le> real_of_int n * of_int S"
      by (simp only: uS mult_1_right)
    also have "\<dots> < 2 ^ 53 * of_int S" using n53 Spos by (intro mult_strict_right_mono) simp_all
    finally show ?thesis by simp
  qed
  let ?r = "round_half_even (x / ulp x)"
  have dn: "j * S \<le> ?r"
  proof (rule rhe_ge)
    have "of_int j * of_int S \<le> x * real_of_int S" using xj Spos by (intro mult_right_mono) simp_all
    then show "real_of_int (j * S) \<le> x / ulp x" by (simp add: q)
  qed
  have up: "?r < (j + 1) * S"
  proof (rule rhe_lt)
    have "1 / 2 < real_of_int S / of_int p" using p2S rp by (simp add: pos_less_divide_eq)
    moreover have "(x + 1 / of_int p) * of_int S \<le> (of_int j + 1) * real_of_int S"
      using xj1 Spos by (intro mult_right_mono) simp_all
    then have "x * of_int S + real_of_int S / of_int p \<le> (of_int j + 1) * of_int S"
      by (simp add: algebra_simps)
    ultimately have "x * of_int S < (of_int j + 1) * of_int S - 1 / 2" by linarith
    then show "x / ulp x < real_of_int ((j + 1) * S) - 1 / 2" by (simp add: q)
  qed
  define y where "y = ulp x * of_int ?r"
  have yl: "of_int j \<le> y"
  proof -
    have "real_of_int (j * S) \<le> of_int ?r" using dn by (simp only: of_int_le_iff)
    then have "ulp x * of_int (j * S) \<le> y"
      unfolding y_def using ulp_pos [of x] by (intro mult_left_mono) simp_all
    moreover have "ulp x * of_int (j * S) = of_int j * (of_int S * ulp x)"
      by (simp add: algebra_simps)
    then have "ulp x * of_int (j * S) = of_int j" by (simp only: uS mult_1_right)
    ultimately show ?thesis by (simp only:)
  qed
  have yu: "y < of_int j + 1"
  proof -
    have "real_of_int ?r < of_int ((j + 1) * S)" using up by (simp only: of_int_less_iff)
    then have "y < ulp x * of_int ((j + 1) * S)"
      unfolding y_def using ulp_pos [of x] by (intro mult_strict_left_mono) simp_all
    also have "\<dots> = (of_int j + 1) * (of_int S * ulp x)" by (simp add: algebra_simps)
    also have "\<dots> = of_int j + 1" by (simp only: uS mult_1_right)
    finally show ?thesis .
  qed
  have fy: "\<lfloor>y\<rfloor> = j" using yl yu by (intro floor_unique) simp_all
  have j0: "0 \<le> j" unfolding j_def using n(1) p(1) by (simp add: pos_imp_zdiv_nonneg_iff)
  have jn: "j \<le> n"
  proof -
    have "n div p \<le> n div 1" using n(1) p(1) by (intro zdiv_mono2) simp_all
    then show ?thesis by (simp add: j_def)
  qed
  have "\<bar>y\<bar> < 2 ^ 1024"
  proof -
    have "0 \<le> real_of_int j" using j0 by simp
    then have "0 \<le> y" using yl by linarith
    moreover have "real_of_int j \<le> of_int n" using jn by (simp only: of_int_le_iff)
    ultimately have "\<bar>y\<bar> < 2 ^ 53 + 1" using yu n53 by linarith
    also have "\<dots> < (2::real) ^ 1024" by simp
    finally show ?thesis .
  qed
  then have "round_double x = Finite y" using pos by (simp add: round_double_def Let_def y_def)
  then show ?thesis using fy by (simp add: x_def j_def)
qed

subsection \<open>The double computations on integers in the exact range\<close>

lemma ceil_sqrt_bound:
  assumes "n < 2 ^ 52" shows "ceil_sqrt n \<le> 2 ^ 26"
proof (rule ccontr)
  assume "\<not> ceil_sqrt n \<le> 2 ^ 26"
  then have "2 ^ 26 < ceil_sqrt n" by simp
  then have "(2 ^ 26) * (2 ^ 26) < n" by (intro ceil_sqrt_least) simp_all
  with assms show False by simp
qed

lemma Math_ceil_sqrt_exact:
  assumes "0 \<le> n" and "n < 2 ^ 52"
  shows "Math_ceil (Math_sqrt (Finite (of_int n))) = Finite (of_int (ceil_sqrt n))"
proof -
  let ?c = "ceil_sqrt n"
  have c0: "0 \<le> ?c" by (rule ceil_sqrt_nonneg)
  have cb: "?c \<le> 2 ^ 26" using assms(2) by (rule ceil_sqrt_bound)
  have ge: "n \<le> ?c * ?c" by (rule ceil_sqrt_ge)
  have n0: "\<not> real_of_int n < 0" using assms(1) by simp
  show ?thesis
  proof (cases "n = ?c * ?c")
    case True
    have "sqrt (real_of_int (?c * ?c)) = \<bar>real_of_int ?c\<bar>" by simp
    then have s: "sqrt (real_of_int n) = of_int ?c" using c0 True by simp
    have "\<bar>?c\<bar> < 2 ^ 53" using c0 cb by simp
    then have "round_double (of_int ?c) = Finite (of_int ?c)" by (rule round_double_int)
    then show ?thesis using n0 by (simp add: s)
  next
    case False
    with ge have lt: "n < ?c * ?c" by simp
    define k where "k = ?c - 1"
    have c1: "1 \<le> ?c"
    proof (rule ccontr)
      assume "\<not> 1 \<le> ?c"
      with c0 have "?c = 0" by simp
      with lt assms(1) show False by simp
    qed
    have kc: "?c = k + 1" by (simp add: k_def)
    have kk: "k * k < n" using c1 by (intro ceil_sqrt_least) (simp_all add: k_def)
    have k1: "1 \<le> k"
    proof (rule ccontr)
      assume "\<not> 1 \<le> k"
      with c1 have "k = 0" by (simp add: k_def)
      with kk lt kc show False by simp
    qed
    have k26: "k < 2 ^ 26" using cb by (simp add: k_def)
    have hi: "n < (k + 1) * (k + 1)" using lt by (simp only: kc)
    from round_double_sqrt [OF k1 k26 kk hi] obtain y where
      y: "round_double (sqrt (of_int n)) = Finite y" "of_int k < y" "y \<le> of_int k + 1"
      by blast
    have "\<lceil>y\<rceil> = k + 1" using y(2,3) by (intro ceiling_unique) simp_all
    then show ?thesis using n0 y(1) by (simp add: kc)
  qed
qed

lemma Math_floor_div_exact:
  assumes "0 \<le> n" and "n < 2 ^ 53" and "0 < p" and "p < 2 ^ 53"
  shows "Math_floor (js_div (Finite (of_int n)) (Finite (of_int p))) = Finite (of_int (n div p))"
proof (cases "n = 0")
  case True
  then show ?thesis using assms(3) by (simp add: round_double_def)
next
  case False
  with assms(1) have "0 < n" by simp
  from round_double_quotient [OF this assms(2-4)] obtain y where
    "round_double (of_int n / of_int p) = Finite y" "\<lfloor>y\<rfloor> = n div p" by blast
  then show ?thesis using assms(3) by simp
qed

lemma pixelsPerKeypoint_le:
  assumes "0 \<le> MIN_KEYPOINT_SIZE g + d + e"
  shows "pixelsPerKeypoint g d e \<le> MIN_KEYPOINT_SIZE g + d + e"
proof -
  have "real_of_int (MIN_KEYPOINT_SIZE g + d + e) / 4 \<le> of_int (MIN_KEYPOINT_SIZE g + d + e)"
    using assms by simp
  then show ?thesis unfolding pixelsPerKeypoint_def ceil_quot_real by (rule ceiling_le)
qed

lemma pixelsPerKeypoint_double_exact:
  assumes "0 \<le> MIN_KEYPOINT_SIZE g" and "0 \<le> d" and "0 \<le> e"
    and "MIN_KEYPOINT_SIZE g + d + e < 2 ^ 53"
  shows "pixelsPerKeypoint_double g (Finite (of_int d)) (Finite (of_int e)) =
           Finite (of_int (pixelsPerKeypoint g d e))"
proof -
  let ?M = "MIN_KEYPOINT_SIZE g"
  have "\<bar>?M + d\<bar> < 2 ^ 53" using assms by simp
  then have "round_double (of_int (?M + d)) = Finite (of_int (?M + d))" by (rule round_double_int)
  then have a1: "js_add (Finite (of_int ?M)) (Finite (of_int d)) = Finite (of_int (?M + d))"
    by simp
  have s: "\<bar>?M + d + e\<bar> < 2 ^ 53" using assms by simp
  then have "round_double (of_int (?M + d + e)) = Finite (of_int (?M + d + e))"
    by (rule round_double_int)
  then have a2: "js_add (Finite (of_int (?M + d))) (Finite (of_int e)) =
      Finite (of_int (?M + d + e))" by simp
  have a3: "js_div (Finite (of_int (?M + d + e))) (Finite 4) = Finite (of_int (?M + d + e) / 4)"
    using round_double_quarter [OF s] by simp
  show ?thesis
    unfolding pixelsPerKeypoint_double_def a1 a2 a3
    by (simp add: pixelsPerKeypoint_def ceil_quot_real)
qed

lemma encoderLength_double_exact:
  assumes "0 \<le> MIN_KEYPOINT_SIZE g" and "0 \<le> d" and "0 \<le> e"
    and "MIN_KEYPOINT_SIZE g + d + e < 2 ^ 53"
    and "0 \<le> cap" and "cap * pixelsPerKeypoint g d e < 2 ^ 52"
  shows "encoderLength_double g (Finite (of_int cap)) (Finite (of_int d)) (Finite (of_int e)) =
           Finite (of_int (max (MIN_ENCODER_LENGTH g) (ceil_sqrt (cap * pixelsPerKeypoint g d e))))"
proof -
  let ?ppk = "pixelsPerKeypoint g d e"
  have ppk: "pixelsPerKeypoint_double g (Finite (of_int d)) (Finite (of_int e)) =
      Finite (of_int ?ppk)"
    using assms(1-4) by (rule pixelsPerKeypoint_double_exact)
  have n0: "0 \<le> cap * ?ppk"
    using pixelsPerKeypoint_nonneg [OF assms(1-3)] assms(5) by simp
  then have "\<bar>cap * ?ppk\<bar> < 2 ^ 53" using assms(6) by simp
  then have "round_double (of_int (cap * ?ppk)) = Finite (of_int (cap * ?ppk))"
    by (rule round_double_int)
  then have m: "js_mul (Finite (of_int cap)) (Finite (of_int ?ppk)) = Finite (of_int (cap * ?ppk))"
    by simp
  have r: "Math_ceil (Math_sqrt (Finite (of_int (cap * ?ppk)))) =
      Finite (of_int (ceil_sqrt (cap * ?ppk)))"
    using n0 assms(6) by (rule Math_ceil_sqrt_exact)
  show ?thesis
    unfolding encoderLength_double_def Let_def ppk m r by simp
qed

lemma encoderCapacity_double_exact:
  assumes "0 < MIN_KEYPOINT_SIZE g" and "0 \<le> d" and "0 \<le> e"
    and "MIN_KEYPOINT_SIZE g + d + e < 2 ^ 53"
    and "0 \<le> len" and "len * len < 2 ^ 53"
  shows "encoderCapacity_double g (Finite (of_int d)) (Finite (of_int e)) (Finite (of_int len)) =
           Finite (of_int (len * len div pixelsPerKeypoint g d e))"
proof -
  let ?ppk = "pixelsPerKeypoint g d e"
  have M0: "0 \<le> MIN_KEYPOINT_SIZE g" using assms(1) by simp
  have ppk: "pixelsPerKeypoint_double g (Finite (of_int d)) (Finite (of_int e)) =
      Finite (of_int ?ppk)"
    using M0 assms(2-4) by (rule pixelsPerKeypoint_double_exact)
  have p0: "0 < ?ppk" using assms(1-3) by (rule pixelsPerKeypoint_pos)
  have "?ppk \<le> MIN_KEYPOINT_SIZE g + d + e" using assms(1-3) by (intro pixelsPerKeypoint_le) simp
  then have p53: "?ppk < 2 ^ 53" using assms(4) by simp
  have l0: "0 \<le> len * len" by simp
  then have "\<bar>len * len\<bar> < 2 ^ 53" using assms(6) by simp
  then have "round_double (of_int (len * len)) = Finite (of_int (len * len))"
    by (rule round_double_int)
  then have m: "js_mul (Finite (of_int len)) (Finite (of_int len)) = Finite (of_int (len * len))"
    by simp
  have r: "Math_floor (js_div (Finite (of_int (len * len))) (Finite (of_int ?ppk))) =
      Finite (of_int (len * len div ?ppk))"
    using l0 assms(6) p0 p53 by (rule Math_floor_div_exact)
  show ?thesis
    unfolding encoderCapacity_double_def Let_def ppk m r by simp
qed

lemma encoderLength_agree:
  assumes "0 \<le> MIN_KEYPOINT_SIZE g" and "0 \<le> d" and "0 \<le> e"
    and "MIN_KEYPOINT_SIZE g + d + e < 2 ^ 53"
    and "0 \<le> cap" and "cap * pixelsPerKeypoint g d e < 2 ^ 52"
  shows "\<exists>len. encoderLength g cap d e = Some len \<and>
           encoderLength_double g (Finite (of_int cap)) (Finite (of_int d)) (Finite (of_int e))
             = Finite (of_int len)"
proof -
  have "0 \<le> cap * pixelsPerKeypoint g d e"
    using pixelsPerKeypoint_nonneg [OF assms(1-3)] assms(5) by simp
  then have "encoderLength g cap d e =
      Some (max (MIN_ENCODER_LENGTH g) (ceil_sqrt (cap * pixelsPerKeypoint g d e)))"
    by (simp add: encoderLength_def Let_def)
  with encoderLength_double_exact [OF assms] show ?thesis by simp
qed

text \<open>
  Where the square root rounds down to an integer: \<open>4503599761588226 = 67108865^2 + 1\<close>, and
  the double nearest to its square root is \<open>67108865\<close>.
\<close>

lemma round_double_sqrt_tie:
  "round_double (sqrt 4503599761588226) = Finite 67108865"
proof -
  define x where "x = sqrt (4503599761588226::real)"
  have lo: "67108865 \<le> x" unfolding x_def by (rule real_le_rsqrt) simp
  have hi: "x < 67108865 + 1 / 2 ^ 27"
    unfolding x_def by (rule real_less_lsqrt) (simp_all add: power2_eq_square)
  have pos: "0 < x" using lo by simp
  have "power_int 2 26 \<le> x" using lo by simp
  moreover have "x < power_int 2 27" using hi by simp
  ultimately have "26 \<le> binade x \<and> binade x < 27" using binade_normal [OF pos, of 26 27] by simp
  then have b: "binade x = 26" by simp
  have u: "ulp x = 1 / 2 ^ 26" by (simp add: ulp_def b power_int_minus inverse_eq_divide)
  have q: "x / ulp x = x * 2 ^ 26" by (simp add: u)
  have "round_half_even (x / ulp x) = 67108865 * 2 ^ 26"
  proof (rule rhe_low)
    show "real_of_int (67108865 * 2 ^ 26) \<le> x / ulp x" using lo by (simp add: q)
    show "x / ulp x < real_of_int (67108865 * 2 ^ 26) + 1 / 2" using hi by (simp add: q)
  qed
  then have "ulp x * of_int (round_half_even (x / ulp x)) = 67108865" by (simp add: u)
  then have "round_double x = Finite 67108865" using pos by (simp add: round_double_def Let_def)
  then show ?thesis by (simp only: x_def)
qed


subsection \<open>Sizing\<close>

lemma spec_pixelsPerKeypoint_eq:
  "spec_pixelsPerKeypoint g d e = pixelsPerKeypoint g d e"
  by (simp add: pixelsPerKeypoint_def spec_pixelsPerKeypoint_def ceil_quot_real)

lemma sizing_inverse_int:
  assumes "0 < ppk" and "0 \<le> cap"
  shows "cap \<le> max m (ceil_sqrt (cap * ppk)) * max m (ceil_sqrt (cap * ppk)) div ppk"
proof -
  let ?n = "cap * ppk"
  let ?len = "max m (ceil_sqrt ?n)"
  have "?n \<le> ceil_sqrt ?n * ceil_sqrt ?n" by (rule ceil_sqrt_ge)
  also have "\<dots> \<le> ?len * ?len"
    by (rule square_mono_int) (simp_all add: ceil_sqrt_nonneg)
  finally have "?n \<le> ?len * ?len" .
  then have "?n div ppk \<le> ?len * ?len div ppk" using assms(1) by (rule zdiv_mono1)
  moreover have "?n div ppk = cap"
    by (rule nonzero_mult_div_cancel_right) (use assms(1) in linarith)
  ultimately show ?thesis by simp
qed

lemma sample_constants:
  "MIN_KEYPOINT_SIZE sample_globals = 8"
  "MIN_ENCODER_LENGTH sample_globals = 2"
  "MAX_ENCODER_CAPACITY sample_globals = 8192"
  by (simp_all add: sample_globals_def)

lemma sample_sizing:
  "pixelsPerKeypoint sample_globals 32 0 = 10"
  "ceil_sqrt 20480 = 144"
  by (simp_all add: sample_constants pixelsPerKeypoint_def ceil_quot_def ceil_sqrt_def
      ceil_sqrt_from.simps)

lemma sample_sizing_double:
  "encoderLength_double sample_globals (Finite 2048) (Finite 32) (Finite 0) = Finite 144"
  "encoderCapacity_double sample_globals (Finite 32) (Finite 0) (Finite 144) = Finite 2073"
proof -
  have "encoderLength_double sample_globals (Finite (of_int 2048)) (Finite (of_int 32))
      (Finite (of_int 0)) =
      Finite (of_int (max (MIN_ENCODER_LENGTH sample_globals)
        (ceil_sqrt (2048 * pixelsPerKeypoint sample_globals 32 0))))"
    by (rule encoderLength_double_exact) (simp_all add: sample_constants sample_sizing)
  then show "encoderLength_double sample_globals (Finite 2048) (Finite 32) (Finite 0) = Finite 144"
    by (simp add: sample_constants sample_sizing)
  have "encoderCapacity_double sample_globals (Finite (of_int 32)) (Finite (of_int 0))
      (Finite (of_int 144)) = Finite (of_int (144 * 144 div pixelsPerKeypoint sample_globals 32 0))"
    by (rule encoderCapacity_double_exact) (simp_all add: sample_constants)
  then show "encoderCapacity_double sample_globals (Finite 32) (Finite 0) (Finite 144)
      = Finite 2073"
    by (simp add: sample_sizing)
qed

lemma tie_pixels:
  "pixelsPerKeypoint_double sample_globals (Finite 18014399046352896) (Finite 0)
     = Finite 4503599761588226"
proof -
  have r1: "round_double 18014399046352904 = Finite 18014399046352904"
  proof -
    have "\<bar>real_of_int 4503599761588226 * power_int 2 2\<bar> < 2 ^ 1024" by simp
    from round_double_dyadic [OF _ _ _ this] show ?thesis by simp
  qed
  have r2: "round_double 4503599761588226 = Finite 4503599761588226"
    using round_double_int [of 4503599761588226] by simp
  show ?thesis
    by (simp add: pixelsPerKeypoint_double_def sample_globals_def r1 r2)
qed

lemma tie_length:
  "Math_max (Finite (of_int (MIN_ENCODER_LENGTH sample_globals)))
     (Math_ceil (Math_sqrt (Finite 4503599761588226))) = Finite 67108865"
  by (simp add: round_double_sqrt_tie sample_globals_def)

text \<open>
  Claim C1 (sizing inverse law), as amended. Let the byte counts and the capacity be integers
  with \<open>descriptorSize \<ge> 0\<close>, \<open>extraSize \<ge> 0\<close>, \<open>capacity \<ge> 0\<close>,
  \<open>MIN_KEYPOINT_SIZE + descriptorSize + extraSize < 2^53\<close> and
  \<open>capacity * pixelsPerKeypoint < 2^52\<close>, where \<open>pixelsPerKeypoint\<close> is
  \<open>ceil((MIN_KEYPOINT_SIZE + descriptorSize + extraSize) / 4)\<close>. Then \<open>encoderLength\<close> returns an
  integer side length, and \<open>encoderCapacity\<close> of that side length is an integer at least as
  large as the capacity asked for. Both functions are the computations of the code on doubles.
  \<open>MIN_KEYPOINT_SIZE\<close>, the number of bytes that every keypoint uses, is positive, and
  \<open>MIN_ENCODER_LENGTH\<close> is at most \<open>2^26\<close>.
\<close>

theorem sizing_inverse_law_bounded:
  assumes "0 < MIN_KEYPOINT_SIZE g" and "MIN_ENCODER_LENGTH g \<le> 2 ^ 26"
    and "0 \<le> descriptorSize" and "0 \<le> extraSize" and "0 \<le> cap"
    and "MIN_KEYPOINT_SIZE g + descriptorSize + extraSize < 2 ^ 53"
    and "cap * spec_pixelsPerKeypoint g descriptorSize extraSize < 2 ^ 52"
  shows "\<exists>len c.
           encoderLength_double g (Finite (of_int cap)) (Finite (of_int descriptorSize))
             (Finite (of_int extraSize)) = Finite (of_int len) \<and>
           encoderCapacity_double g (Finite (of_int descriptorSize)) (Finite (of_int extraSize))
             (encoderLength_double g (Finite (of_int cap)) (Finite (of_int descriptorSize))
                (Finite (of_int extraSize))) = Finite (of_int c) \<and>
           cap \<le> c"
proof -
  let ?ppk = "pixelsPerKeypoint g descriptorSize extraSize"
  let ?n = "cap * ?ppk"
  let ?len = "max (MIN_ENCODER_LENGTH g) (ceil_sqrt ?n)"
  have M0: "0 \<le> MIN_KEYPOINT_SIZE g" using assms(1) by simp
  have n52: "?n < 2 ^ 52" using assms(7) by (simp only: spec_pixelsPerKeypoint_eq)
  have len: "encoderLength_double g (Finite (of_int cap)) (Finite (of_int descriptorSize))
      (Finite (of_int extraSize)) = Finite (of_int ?len)"
    using M0 assms(3,4,6,5) n52 by (rule encoderLength_double_exact)
  have l0: "0 \<le> ?len" using ceil_sqrt_nonneg [of ?n] by simp
  have l26: "?len \<le> 2 ^ 26" using assms(2) ceil_sqrt_bound [OF n52] by simp
  have "?len * ?len \<le> 2 ^ 26 * 2 ^ 26" using l0 l26 by (intro mult_mono) simp_all
  then have l53: "?len * ?len < 2 ^ 53" by simp
  have c: "encoderCapacity_double g (Finite (of_int descriptorSize)) (Finite (of_int extraSize))
      (Finite (of_int ?len)) = Finite (of_int (?len * ?len div ?ppk))"
    using assms(1,3,4,6) l0 l53 by (rule encoderCapacity_double_exact)
  have ppk: "0 < ?ppk" using assms(1,3,4) by (rule pixelsPerKeypoint_pos)
  have ineq: "cap \<le> ?len * ?len div ?ppk" using ppk assms(5) by (rule sizing_inverse_int)
  have c': "encoderCapacity_double g (Finite (of_int descriptorSize)) (Finite (of_int extraSize))
      (encoderLength_double g (Finite (of_int cap)) (Finite (of_int descriptorSize))
         (Finite (of_int extraSize))) = Finite (of_int (?len * ?len div ?ppk))"
    by (simp only: len c)
  show ?thesis using len c' ineq by blast
qed

theorem sizing_inverse_law_bounded_witness:
  "0 < MIN_KEYPOINT_SIZE sample_globals \<and> MIN_ENCODER_LENGTH sample_globals \<le> 2 ^ 26 \<and>
   (0::int) \<le> 32 \<and> (0::int) \<le> 0 \<and> (0::int) \<le> 2048 \<and>
   MIN_KEYPOINT_SIZE sample_globals + 32 + 0 < 2 ^ 53 \<and>
   2048 * spec_pixelsPerKeypoint sample_globals 32 0 < 2 ^ 52 \<and>
   encoderLength_double sample_globals (Finite 2048) (Finite 32) (Finite 0) = Finite 144 \<and>
   encoderCapacity_double sample_globals (Finite 32) (Finite 0) (Finite 144) = Finite 2073 \<and>
   (\<exists>c. encoderCapacity_double sample_globals (Finite 32) (Finite 0)
           (encoderLength_double sample_globals (Finite 2048) (Finite 32) (Finite 0))
         = Finite (of_int c) \<and> 2048 \<le> c)"
proof -
  have h: "0 < MIN_KEYPOINT_SIZE sample_globals" "MIN_ENCODER_LENGTH sample_globals \<le> 2 ^ 26"
    "MIN_KEYPOINT_SIZE sample_globals + 32 + 0 < 2 ^ 53"
    "2048 * spec_pixelsPerKeypoint sample_globals 32 0 < 2 ^ 52"
    by (simp_all add: sample_constants spec_pixelsPerKeypoint_eq sample_sizing)
  from sizing_inverse_law_bounded [OF h(1,2) _ _ _ h(3,4)]
  have "\<exists>c. encoderCapacity_double sample_globals (Finite 32) (Finite 0)
           (encoderLength_double sample_globals (Finite 2048) (Finite 32) (Finite 0))
         = Finite (of_int c) \<and> 2048 \<le> c"
    by simp
  with h sample_sizing_double show ?thesis by simp
qed

text \<open>
  As stated, the claim fails where the square root rounds. With \<open>MIN_KEYPOINT_SIZE = 8\<close>, a
  capacity of 1 and a descriptor of \<open>2^54 + 2^29\<close> bytes take \<open>67108865^2 + 1\<close> pixels; the
  side length returned is \<open>67108865\<close>, one short, and the capacity of an encoder of that side
  length is 0.
\<close>

theorem sizing_inverse_law_counterexample:
  "(0::int) \<le> 18014399046352896 \<and> (0::int) \<le> 0 \<and> (0::int) \<le> 1 \<and>
   1 \<le> MAX_CAPACITY sample_globals \<and>
   encoderLength_double sample_globals (Finite 1) (Finite 18014399046352896) (Finite 0)
     = Finite 67108865 \<and>
   encoderCapacity_double sample_globals (Finite 18014399046352896) (Finite 0)
     (encoderLength_double sample_globals (Finite 1) (Finite 18014399046352896) (Finite 0))
     = Finite 0 \<and>
   \<not> (1::real) \<le> 0"
proof -
  have r2: "round_double 4503599761588226 = Finite 4503599761588226"
    using round_double_int [of 4503599761588226] by simp
  have len: "encoderLength_double sample_globals (Finite 1) (Finite 18014399046352896) (Finite 0)
      = Finite 67108865"
    using tie_length by (simp add: encoderLength_double_def tie_pixels r2)
  have r3: "round_double 4503599761588225 = Finite 4503599761588225"
    using round_double_int [of 4503599761588225] by simp
  have "Math_floor (js_div (Finite (of_int 4503599761588225)) (Finite (of_int 4503599761588226)))
      = Finite (of_int (4503599761588225 div 4503599761588226))"
    by (rule Math_floor_div_exact) simp_all
  then have q: "Math_floor (js_div (Finite 4503599761588225) (Finite 4503599761588226)) = Finite 0"
    by simp
  have c: "encoderCapacity_double sample_globals (Finite 18014399046352896) (Finite 0)
      (Finite 67108865) = Finite 0"
    using q by (simp add: encoderCapacity_double_def tie_pixels r3 del: js_div.simps Math_floor.simps)
  show ?thesis using len c by (simp add: MAX_CAPACITY_def sample_globals_def)
qed




subsection \<open>The capacity property\<close>

lemma wrap32_sint: "wrap32 i = sint (word_of_int i :: 32 word)"
  unfolding wrap32_def
  by (simp add: sint_uint signed_take_bit_eq_take_bit_shift take_bit_eq_mod uint_word_of_int_eq
      mod_add_left_eq)

lemma wrap32_range: "- (2 ^ 31) \<le> wrap32 i \<and> wrap32 i < 2 ^ 31"
proof -
  have "0 \<le> (i + 2 ^ 31) mod 2 ^ 32" "(i + 2 ^ 31) mod 2 ^ 32 < (2 ^ 32 :: int)"
    by simp_all
  then show ?thesis unfolding wrap32_def by simp
qed

lemma wrap32_id: "- (2 ^ 31) \<le> i \<Longrightarrow> i < 2 ^ 31 \<Longrightarrow> wrap32 i = i"
  unfolding wrap32_def by (simp add: mod_pos_pos_trivial)

lemma trunc_of_int: "trunc (real_of_int i) = i"
  by (simp add: trunc_def)

lemma trunc_neg: "x < 0 \<Longrightarrow> trunc x \<le> 0"
  by (simp add: trunc_def ceiling_le_zero)

lemma trunc_above: "real_of_int m < x \<Longrightarrow> 0 \<le> m \<Longrightarrow> m \<le> trunc x"
  by (simp add: trunc_def le_floor_iff)

lemma capacity_set_capacity:
  "capacity (set_capacity g v node) = min (max 0 (ToInt32 v)) (MAX_CAPACITY g)"
  by (simp add: set_capacity_def)

lemma set_capacity_range:
  assumes "0 \<le> MAX_CAPACITY g"
  shows "0 \<le> capacity (set_capacity g v node) \<and> capacity (set_capacity g v node) \<le> MAX_CAPACITY g"
  using assms by (simp add: capacity_set_capacity)

lemma set_capacity_wraps:
  assumes "0 \<le> MAX_CAPACITY g"
  shows "capacity (set_capacity g (Finite 2147483648) node) = 0"
  using assms by (simp add: capacity_set_capacity trunc_def wrap32_def)

text \<open>
  Claim C3 (clamping of the capacity), as amended. Every write stores a capacity in
  \<open>[0, MAX_CAPACITY]\<close>, whatever the number written. If the number, truncated towards zero,
  lies in the signed 32-bit range, then a negative number stores 0 and a number above
  \<open>MAX_CAPACITY\<close> stores \<open>MAX_CAPACITY\<close>. The setter is a total function: no write fails.
  \<open>MAX_CAPACITY\<close> is not negative.
\<close>

theorem set_capacity_clamps_int32:
  assumes "0 \<le> MAX_CAPACITY g"
  shows "(0 \<le> capacity (set_capacity g v node) \<and>
          capacity (set_capacity g v node) \<le> MAX_CAPACITY g) \<and>
         (- (2 ^ 31) \<le> trunc x \<and> trunc x < 2 ^ 31 \<longrightarrow>
            (x < 0 \<longrightarrow> capacity (set_capacity g (Finite x) node) = 0) \<and>
            (real_of_int (MAX_CAPACITY g) < x \<longrightarrow>
               capacity (set_capacity g (Finite x) node) = MAX_CAPACITY g))"
proof (intro conjI impI)
  show "0 \<le> capacity (set_capacity g v node)"
    using set_capacity_range [OF assms, of v node] by simp
  show "capacity (set_capacity g v node) \<le> MAX_CAPACITY g"
    using set_capacity_range [OF assms, of v node] by simp
next
  assume r: "- (2 ^ 31) \<le> trunc x \<and> trunc x < 2 ^ 31" and "x < 0"
  from r have w: "wrap32 (trunc x) = trunc x" by (simp add: wrap32_id)
  from \<open>x < 0\<close> have "trunc x \<le> 0" by (rule trunc_neg)
  then show "capacity (set_capacity g (Finite x) node) = 0"
    using assms w by (simp add: capacity_set_capacity)
next
  assume r: "- (2 ^ 31) \<le> trunc x \<and> trunc x < 2 ^ 31"
    and "real_of_int (MAX_CAPACITY g) < x"
  from r have w: "wrap32 (trunc x) = trunc x" by (simp add: wrap32_id)
  from \<open>real_of_int (MAX_CAPACITY g) < x\<close> have "MAX_CAPACITY g \<le> trunc x"
    using assms by (rule trunc_above)
  then show "capacity (set_capacity g (Finite x) node) = MAX_CAPACITY g"
    using assms w by (simp add: capacity_set_capacity)
qed

theorem set_capacity_clamps_int32_witness:
  "0 \<le> MAX_CAPACITY sample_globals \<and>
   - (2 ^ 31) \<le> trunc 10000.5 \<and> trunc 10000.5 < 2 ^ 31 \<and>
   real_of_int (MAX_CAPACITY sample_globals) < 10000.5 \<and>
   capacity (set_capacity sample_globals (Finite 10000.5) (SpeedyPipelineNodeKeypointDetector 0))
     = 8192"
proof -
  have h: "0 \<le> MAX_CAPACITY sample_globals" by (simp add: MAX_CAPACITY_def sample_globals_def)
  have t: "trunc 10000.5 = 10000" by (simp add: trunc_def)
  have m: "MAX_CAPACITY sample_globals = 8192" by (simp add: MAX_CAPACITY_def sample_globals_def)
  show ?thesis
    using h t m set_capacity_clamps_int32 [OF h, of "Finite 10000.5"
        "SpeedyPipelineNodeKeypointDetector 0" "10000.5"]
    by simp
qed

text \<open>
  As stated, the claim fails outside the signed 32-bit range: \<open>2^31\<close> is above the maximum and
  stores 0, and \<open>-2^31 - 1\<close> is negative and stores the maximum.
\<close>

theorem set_capacity_saturation_counterexample:
  "real_of_int (MAX_CAPACITY sample_globals) < 2147483648 \<and>
   capacity (set_capacity sample_globals (Finite 2147483648)
     (SpeedyPipelineNodeKeypointDetector 0)) = 0 \<and>
   MAX_CAPACITY sample_globals = 8192 \<and>
   (- 2147483649 :: real) < 0 \<and>
   capacity (set_capacity sample_globals (Finite (- 2147483649))
     (SpeedyPipelineNodeKeypointDetector 0)) = 8192"
  by (simp add: capacity_set_capacity MAX_CAPACITY_def sample_globals_def trunc_def wrap32_def)

lemma ToInt32_trunc32: "ToInt32 v = trunc32 v"
  by (cases v) (simp_all add: trunc32_def wrap32_sint)

lemma wrap32_high: "2 ^ 31 \<le> i \<Longrightarrow> i < 2 ^ 32 \<Longrightarrow> wrap32 i = i - 2 ^ 32"
proof -
  assume r: "2 ^ 31 \<le> i" "i < 2 ^ 32"
  have "(i + 2 ^ 31 - 2 ^ 32) mod 2 ^ 32 = (i + 2 ^ 31) mod (2 ^ 32 :: int)"
    by (rule minus_mod_self2)
  moreover have "(i + 2 ^ 31 - 2 ^ 32) mod 2 ^ 32 = i + 2 ^ 31 - 2 ^ 32"
    by (rule mod_pos_pos_trivial) (use r in simp_all)
  ultimately show ?thesis unfolding wrap32_def by linarith
qed

text \<open>
  Claim C10 (the capacity stored). Writing a number \<open>v\<close> stores
  \<open>min(max(0, trunc32(v)), MAX_ENCODER_CAPACITY)\<close>, an integer; the fraction of \<open>v\<close> does not
  matter; a number whose truncation lies in \<open>[2^31, 2^32)\<close> wraps to a negative 32-bit value
  and stores \<open>min(0, MAX_ENCODER_CAPACITY)\<close>, not the upper boundary.
\<close>

theorem set_capacity_trunc32:
  "capacity (set_capacity g v node) = min (max 0 (trunc32 v)) (MAX_ENCODER_CAPACITY g) \<and>
   trunc32 (Finite x) = trunc32 (Finite (real_of_int (trunc x))) \<and>
   (2 ^ 31 \<le> trunc x \<and> trunc x < 2 ^ 32 \<longrightarrow>
      trunc32 (Finite x) = trunc x - 2 ^ 32 \<and>
      capacity (set_capacity g (Finite x) node) = min 0 (MAX_ENCODER_CAPACITY g))"
proof (intro conjI impI)
  show "capacity (set_capacity g v node) = min (max 0 (trunc32 v)) (MAX_ENCODER_CAPACITY g)"
    by (simp only: capacity_set_capacity ToInt32_trunc32 MAX_CAPACITY_def)
  show "trunc32 (Finite x) = trunc32 (Finite (real_of_int (trunc x)))"
    by (simp add: trunc32_def trunc_of_int)
next
  assume r: "2 ^ 31 \<le> trunc x \<and> trunc x < 2 ^ 32"
  then have w: "wrap32 (trunc x) = trunc x - 2 ^ 32" by (simp add: wrap32_high)
  have e: "trunc32 (Finite x) = wrap32 (trunc x)"
    using ToInt32_trunc32 [of "Finite x"] by simp
  show t: "trunc32 (Finite x) = trunc x - 2 ^ 32" using e w by simp
  have n: "trunc32 (Finite x) \<le> 0" using t r by linarith
  have "capacity (set_capacity g (Finite x) node) =
      min (max 0 (trunc32 (Finite x))) (MAX_ENCODER_CAPACITY g)"
    by (simp only: capacity_set_capacity ToInt32_trunc32 MAX_CAPACITY_def)
  also have "max 0 (trunc32 (Finite x)) = 0" using n by (rule max_absorb1)
  finally show "capacity (set_capacity g (Finite x) node) = min 0 (MAX_ENCODER_CAPACITY g)" .
qed

theorem set_capacity_trunc32_witness:
  "(2 ^ 31 :: int) \<le> trunc 3000000000.75 \<and> trunc 3000000000.75 < 2 ^ 32 \<and>
   trunc32 (Finite 3000000000.75) = - 1294967296 \<and>
   capacity (set_capacity sample_globals (Finite 3000000000.75)
     (SpeedyPipelineNodeKeypointDetector 0)) = 0"
proof -
  have t: "trunc 3000000000.75 = 3000000000" by (simp add: trunc_def)
  have m: "MAX_ENCODER_CAPACITY sample_globals = 8192" by (simp add: sample_globals_def)
  show ?thesis
    using t m set_capacity_trunc32 [of sample_globals "Finite 3000000000.75"
        "SpeedyPipelineNodeKeypointDetector 0" "3000000000.75"]
    by simp
qed

subsection \<open>The levels and scaleFactor properties\<close>

lemma set_levels_ge_1: "1 \<le> levels (set_levels v node)"
  by (simp add: set_levels_def)

lemma set_scaleFactor_in_interval:
  "v \<noteq> NaN \<Longrightarrow> in_interval 1 2 (scaleFactor (set_scaleFactor v node))"
  by (cases v) (simp_all add: set_scaleFactor_def)

text \<open>
  Claim C7 (saturation of levels and scaleFactor). The levels stored are at least 1 and a
  number other than \<open>NaN\<close> stores a scale factor in \<open>[1, 2]\<close> (the two lemmas above). Writing
  \<open>NaN\<close> stores \<open>NaN\<close>, which is not in \<open>[1, 2]\<close>: the code evaluated at that input.
\<close>

theorem set_scaleFactor_NaN:
  "scaleFactor (set_scaleFactor NaN (SpeedyPipelineNodeMultiscaleKeypointDetector 0)) = NaN \<and>
   \<not> in_interval 1 2
     (scaleFactor (set_scaleFactor NaN (SpeedyPipelineNodeMultiscaleKeypointDetector 0)))"
  by (simp add: set_scaleFactor_def)

subsection \<open>Keypoints\<close>

lemma Math_pow2_integer:
  assumes "- 1074 \<le> n" and "n \<le> 1023"
  shows "Math_pow2 (Finite (of_int n)) = Finite (power_int 2 n)"
  using round_double_pow2 [OF assms] by (simp add: two_powr_int)

lemma Math_pow2_overflow:
  assumes "1024 \<le> e" shows "Math_pow2 (Finite e) = PosInfinity"
proof -
  have a: "(2::real) powr 1024 \<le> 2 powr e" using assms by (intro powr_mono) simp_all
  have b: "(2::real) powr 1024 = 2 ^ 1024" by simp
  from a have "2 ^ 1024 \<le> 2 powr e" by (simp only: b)
  then show ?thesis by (simp only: Math_pow2.simps round_double_overflow)
qed

lemma Math_pow2_underflow:
  assumes "e \<le> - 1075" shows "Math_pow2 (Finite e) = Finite 0"
proof -
  have "2 powr e \<le> 2 powr real_of_int (- 1075)" using assms by simp
  then have "2 powr e \<le> power_int 2 (- 1075)" by (simp only: two_powr_int)
  moreover have "0 < 2 powr e" by simp
  ultimately have "round_double (2 powr e) = Finite 0" by (intro round_double_underflow)
  then show ?thesis by simp
qed

text \<open>
  Claim C9 (keypoints), as amended. Every accessor of a keypoint returns the value given to the
  constructor, or the default 0 of an argument left out; the class has no operation that
  changes a keypoint. The scale is \<^verbatim>\<open>Math.pow(2, lod)\<close>, the double nearest to \<open>2^lod\<close>: it is
  \<open>2^lod\<close> for an integer level of detail from \<open>-1074\<close> to \<open>1023\<close>, \<open>Infinity\<close> for a level of
  detail of 1024 or more, and 0 for one of \<open>-1075\<close> or less.
\<close>

theorem keypoint_accessors_scale:
  "get_x (new_SpeedyKeypoint x y lod rotation score descriptor) = x \<and>
   get_y (new_SpeedyKeypoint x y lod rotation score descriptor) = y \<and>
   get_position (new_SpeedyKeypoint x y lod rotation score descriptor)
     = \<lparr>point_x = x, point_y = y\<rparr> \<and>
   get_lod (new_SpeedyKeypoint x y (Some l) rotation score descriptor) = l \<and>
   get_rotation (new_SpeedyKeypoint x y lod (Some r) score descriptor) = r \<and>
   get_score (new_SpeedyKeypoint x y lod rotation (Some sc) descriptor) = sc \<and>
   get_descriptor (new_SpeedyKeypoint x y lod rotation score descriptor) = descriptor \<and>
   get_lod (new_SpeedyKeypoint x y None rotation score descriptor) = Finite 0 \<and>
   get_rotation (new_SpeedyKeypoint x y lod None score descriptor) = Finite 0 \<and>
   get_score (new_SpeedyKeypoint x y lod rotation None descriptor) = Finite 0 \<and>
   get_scale (new_SpeedyKeypoint x y lod rotation score descriptor)
     = Math_pow2 (get_lod (new_SpeedyKeypoint x y lod rotation score descriptor)) \<and>
   (- 1074 \<le> n \<and> n \<le> 1023 \<longrightarrow>
      get_scale (new_SpeedyKeypoint x y (Some (Finite (of_int n))) rotation score descriptor)
        = Finite (power_int 2 n)) \<and>
   (1024 \<le> hi \<longrightarrow>
      get_scale (new_SpeedyKeypoint x y (Some (Finite hi)) rotation score descriptor)
        = PosInfinity) \<and>
   (lo \<le> - 1075 \<longrightarrow>
      get_scale (new_SpeedyKeypoint x y (Some (Finite lo)) rotation score descriptor)
        = Finite 0)"
proof -
  have s: "get_scale (new_SpeedyKeypoint x y (Some v) rotation score descriptor) = Math_pow2 v"
    for v by (simp add: get_scale_def new_SpeedyKeypoint_def)
  show ?thesis
    unfolding s
    by (simp add: new_SpeedyKeypoint_def get_x_def get_y_def get_position_def get_lod_def
        get_rotation_def get_score_def get_descriptor_def get_scale_def
        Math_pow2_integer Math_pow2_overflow Math_pow2_underflow del: Math_pow2.simps)
qed

theorem keypoint_accessors_scale_witness:
  "(- 1074 :: int) \<le> 3 \<and> (3::int) \<le> 1023 \<and> (1024::real) \<le> 1024 \<and> (- 1075 :: real) \<le> - 1075 \<and>
   get_scale (new_SpeedyKeypoint (Finite 1) (Finite 2) (Some (Finite 3)) None None
     (None :: unit option)) = Finite 8 \<and>
   get_scale (new_SpeedyKeypoint (Finite 1) (Finite 2) (Some (Finite 1024)) None None
     (None :: unit option)) = PosInfinity \<and>
   get_scale (new_SpeedyKeypoint (Finite 1) (Finite 2) (Some (Finite (- 1075))) None None
     (None :: unit option)) = Finite 0 \<and>
   get_lod (new_SpeedyKeypoint (Finite 1) (Finite 2) (Some (Finite 3)) None None
     (None :: unit option)) = Finite 3"
  using keypoint_accessors_scale [of "Finite 1" "Finite 2" None None None
      "None :: unit option" "Finite 3" "Finite 0" "Finite 0" 3 1024 "- 1075"]
  by simp

text \<open>
  As stated, the claim fails from a level of detail of 1024 on: the scale is \<open>Infinity\<close>, not
  \<open>2^1024\<close>.
\<close>

theorem keypoint_scale_counterexample:
  "get_scale (new_SpeedyKeypoint (Finite 0) (Finite 0) (Some (Finite 1024)) None None
     (None :: unit option)) = PosInfinity \<and>
   PosInfinity \<noteq> Finite (2 ^ 1024)"
  by (simp add: get_scale_def new_SpeedyKeypoint_def Math_pow2_overflow del: Math_pow2.simps)

subsection \<open>Programs and passes\<close>

lemma outputs_proj [simp]:
  "trace (outputs p w h ts s) = trace s @ [Outputs p w h ts]"
  "outputs_of (outputs p w h ts s) =
     (outputs_of s)(p \<mapsto> \<lparr>out_width = w, out_height = h, out_textures = ts, out_index = 0\<rparr>)"
  "textures (outputs p w h ts s) = textures s"
  by (simp_all add: outputs_def)

lemma invoked_proj [simp]:
  "trace (invoked p args out s) = trace s @ [Invoke p args (destination out)]"
  "outputs_of (invoked p args out s) =
     (outputs_of s)(p \<mapsto> out\<lparr>out_index := (out_index out + 1) mod length (out_textures out)\<rparr>)"
  "textures (invoked p args out s) = (textures s)
          (destination out := (textures s (destination out))
             \<lparr>width := out_width out, height := out_height out,
              content := render p (map (resolve s) args)\<rparr>)"
  by (simp_all add: invoked_def)

lemma clear_proj [simp]:
  "trace (clear t colour s) = trace s @ [Clear t colour]"
  "outputs_of (clear t colour s) = outputs_of s"
  "textures (clear t colour s) = (textures s)(t := (textures s t)\<lparr>content := Cleared colour\<rparr>)"
  by (simp_all add: clear_def)

lemma resize_proj [simp]:
  "trace (resize t w h s) = trace s @ [Resize t w h]"
  "outputs_of (resize t w h s) = outputs_of s"
  "textures (resize t w h s) =
     (textures s)(t := (textures s t)\<lparr>width := w, height := h, content := Blank\<rparr>)"
  by (simp_all add: resize_def)

lemma texture_parameters_simps [simp]:
  "texture_parameters (outputs p w h ts s) = texture_parameters s"
  "texture_parameters (invoked p args out s) = texture_parameters s"
  "texture_parameters (clear t colour s) = texture_parameters s"
  "texture_parameters (resize t w h s) = texture_parameters s"
  by (auto simp add: texture_parameters_def fun_eq_iff)

lemma invoke_SomeD:
  "invoke p args s = Some (t, s') \<Longrightarrow>
     \<exists>out. outputs_of s p = Some out \<and> out_textures out \<noteq> [] \<and>
       t = destination out \<and> s' = invoked p args out s"
  by (auto simp add: invoke_def split: option.splits if_splits)

lemma invoke_parameters:
  "invoke p args s = Some (t, s') \<Longrightarrow> texture_parameters s' = texture_parameters s"
  by (auto dest: invoke_SomeD)

lemma configured_invoked:
  "configured q s \<Longrightarrow> out_textures out \<noteq> [] \<Longrightarrow> configured q (invoked p args out s)"
  by (auto simp add: configured_def split: option.splits)

lemma configured_outputs:
  "configured p (outputs p w h (t # ts) s)"
  "configured q s \<Longrightarrow> configured q (outputs p w h (t # ts) s)"
  by (auto simp add: configured_def)

lemma invoke_configured:
  assumes "configured p s"
  obtains out where "outputs_of s p = Some out" and "out_textures out \<noteq> []"
    and "invoke p args s = Some (destination out, invoked p args out s)"
  using assms by (auto simp add: configured_def invoke_def split: option.splits)

lemma long_skip_loop_parameters:
  "long_skip_loop i imageSize offsets s = Some (r, s') \<Longrightarrow>
     texture_parameters s' = texture_parameters s"
proof (induction i imageSize offsets s rule: long_skip_loop.induct)
  case (1 i imageSize offsets s)
  show ?case
  proof (cases "i < LONG_SKIP_OFFSET_PASSES")
    case False
    with "1.prems" show ?thesis by (simp add: long_skip_loop.simps [of i])
  next
    case True
    with "1.prems" obtain offsets1 s1
      where inv: "invoke EncodeKeypointLongSkipOffsets [ATex offsets, AVec imageSize] s
                    = Some (offsets1, s1)"
        and rest: "long_skip_loop (Suc i) imageSize offsets1 s1 = Some (r, s')"
      by (auto simp add: long_skip_loop.simps [of i] split: option.splits)
    from "1.IH" [OF True inv refl rest] invoke_parameters [OF inv]
    show ?thesis by simp
  qed
qed

lemma positions_loop_parameters:
  "positions_loop j offsets imageSize cap descriptorSize extraSize len encodedKps s
     = Some (r, s') \<Longrightarrow> texture_parameters s' = texture_parameters s"
proof (induction j offsets imageSize cap descriptorSize extraSize len encodedKps s
    rule: positions_loop.induct)
  case (1 j offsets imageSize cap descriptorSize extraSize len encodedKps s)
  show ?case
  proof (cases "j < ENCODER_PASSES")
    case False
    with "1.prems" show ?thesis by (simp add: positions_loop.simps [of j])
  next
    case True
    with "1.prems" obtain encodedKps1 s1
      where inv: "invoke EncodeKeypointPositions
                [ATex offsets, AVec imageSize, AInt (int j), AInt (int ENCODER_PASSES), AInt cap,
                 ATex encodedKps, AInt descriptorSize, AInt extraSize, AInt len] s
                    = Some (encodedKps1, s1)"
        and rest: "positions_loop (Suc j) offsets imageSize cap descriptorSize extraSize len
               encodedKps1 s1 = Some (r, s')"
      by (auto simp add: positions_loop.simps [of j] split: option.splits)
    from "1.IH" [OF True inv refl rest] invoke_parameters [OF inv]
    show ?thesis by simp
  qed
qed

lemma tables_loop_parameters:
  "tables_loop i npasses stride sumTable lookupTable s = Some (st, lt, s') \<Longrightarrow>
     texture_parameters s' = texture_parameters s"
proof (induction i npasses stride sumTable lookupTable s rule: tables_loop.induct)
  case (1 i npasses stride sumTable lookupTable s)
  show ?case
  proof (cases "i < npasses")
    case False
    with "1.prems" show ?thesis by (simp add: tables_loop.simps [of i])
  next
    case True
    with "1.prems" obtain sumTable1 s1 lookupTable1 s2
      where inv1: "invoke ComputeSumTable
                [ATex sumTable, AInt (shl1 i), AInt (2 * shl1 i), AInt stride] s
                    = Some (sumTable1, s1)"
        and inv2: "invoke ComputeLookupOfLocations
                     [ATex lookupTable, ATex sumTable1, ATex sumTable,
                      AInt (shl1 i), AInt (2 * shl1 i), AInt stride] s1 = Some (lookupTable1, s2)"
        and rest: "tables_loop (i + 1) npasses stride sumTable1 lookupTable1 s2 = Some (st, lt, s')"
      by (auto simp add: tables_loop.simps [of i] Let_def split: option.splits)
    from "1.IH" [OF True refl refl inv1 refl inv2 refl rest]
      invoke_parameters [OF inv1] invoke_parameters [OF inv2]
    show ?thesis by simp
  qed
qed

lemma tables_loop_Some:
  assumes "configured ComputeSumTable s" and "configured ComputeLookupOfLocations s"
  shows "\<exists>r. tables_loop i npasses stride sumTable lookupTable s = Some r"
  using assms
proof (induction i npasses stride sumTable lookupTable s rule: tables_loop.induct)
  case (1 i npasses stride sumTable lookupTable s)
  show ?case
  proof (cases "i < npasses")
    case False
    then show ?thesis by (simp add: tables_loop.simps [of i])
  next
    case True
    from "1.prems"(1) obtain out1 where o1: "out_textures out1 \<noteq> []"
      and inv1: "invoke ComputeSumTable
                [ATex sumTable, AInt (shl1 i), AInt (2 * shl1 i), AInt stride] s
                    = Some (destination out1, invoked ComputeSumTable
                [ATex sumTable, AInt (shl1 i), AInt (2 * shl1 i), AInt stride] out1 s)"
      by (rule invoke_configured)
    let ?s1 = "invoked ComputeSumTable
                [ATex sumTable, AInt (shl1 i), AInt (2 * shl1 i), AInt stride] out1 s"
    have c1: "configured ComputeSumTable ?s1" "configured ComputeLookupOfLocations ?s1"
      using "1.prems" o1 by (simp_all add: configured_invoked)
    from c1(2) obtain out2 where o2: "out_textures out2 \<noteq> []"
      and inv2: "invoke ComputeLookupOfLocations
                     [ATex lookupTable, ATex (destination out1), ATex sumTable,
                      AInt (shl1 i), AInt (2 * shl1 i), AInt stride] ?s1
                 = Some (destination out2, invoked ComputeLookupOfLocations
                     [ATex lookupTable, ATex (destination out1), ATex sumTable,
                      AInt (shl1 i), AInt (2 * shl1 i), AInt stride] out2 ?s1)"
      by (rule invoke_configured)
    let ?s2 = "invoked ComputeLookupOfLocations
                     [ATex lookupTable, ATex (destination out1), ATex sumTable,
                      AInt (shl1 i), AInt (2 * shl1 i), AInt stride] out2 ?s1"
    have c2: "configured ComputeSumTable ?s2" "configured ComputeLookupOfLocations ?s2"
      using c1 o2 by (simp_all add: configured_invoked)
    from "1.IH" [OF True refl refl inv1 refl inv2 refl c2]
    show ?thesis using True inv1 inv2 by (simp add: tables_loop.simps [of i] Let_def)
  qed
qed

subsection \<open>The encoder for no keypoints\<close>

lemma encodeZeroKeypoints_parameters:
  assumes "encodeZeroKeypoints g encodedKeypoints descriptorSize extraSize s = Some (r, s')"
  shows "texture_parameters s' = texture_parameters s"
proof -
  from assms obtain len t where
    "invoke EncodeNullKeypoints [] (outputs EncodeNullKeypoints len len [encodedKeypoints] s)
       = Some (t, s')"
    by (auto simp add: encodeZeroKeypoints_def Let_def split: Option.bind_splits)
  from invoke_parameters [OF this] show ?thesis by simp
qed



subsection \<open>The skip-offset encoder\<close>

text \<open>
  One run of \<open>_encodeKeypoints\<close>, pass by pass: it returns the output texture, its events are
  those of \<^const>\<open>skip_offset_events\<close>, it leaves the parameters of all textures alone, and
  what it writes is the property-encoding pass over the input and the encoded positions.
\<close>

lemma encodeKeypoints_run:
  assumes len: "encoderLength g (capacity node) descriptorSize extraSize = Some len"
    and tx: "with_special (internal_textures node) = Some (t0, t1, t2, t3, special)"
    and w: "w = width (textures s corners)"
    and h: "h = height (textures s corners)"
  shows "\<exists>s'. encodeKeypoints g node corners encodedKeypoints descriptorSize extraSize s
            = Some (encodedKeypoints, s') \<and>
          trace s' = trace s @
            skip_offset_events w h len (capacity node) descriptorSize extraSize
              (t0, t1, t2, t3, special) corners encodedKeypoints \<and>
          texture_parameters s' = texture_parameters s \<and>
          (special \<notin> {t0, t1, t2, t3} \<longrightarrow>
             (\<exists>positions. content (textures s' encodedKeypoints) =
                Rendered EncodeKeypointProperties
                  [Sampler (content (textures s corners)), Sampler positions,
                   Scalar descriptorSize, Scalar extraSize, Scalar len]))"
proof -
  let ?s4 = "(outputs Identity w h [special] (outputs EncodeKeypointProperties len len [encodedKeypoints] (outputs EncodeKeypointPositions len len [t2, t3] (outputs EncodeKeypointLongSkipOffsets w h [t1, t0] (outputs EncodeKeypointSkipOffsets w h [t0] s)))))"
  have o4: "outputs_of ?s4 = (outputs_of s)(EncodeKeypointSkipOffsets \<mapsto> \<lparr>out_width = w, out_height = h, out_textures = [t0], out_index = 0\<rparr>, EncodeKeypointLongSkipOffsets \<mapsto> \<lparr>out_width = w, out_height = h, out_textures = [t1, t0], out_index = 0\<rparr>, EncodeKeypointPositions \<mapsto> \<lparr>out_width = len, out_height = len, out_textures = [t2, t3], out_index = 0\<rparr>, EncodeKeypointProperties \<mapsto> \<lparr>out_width = len, out_height = len, out_textures = [encodedKeypoints], out_index = 0\<rparr>, Identity \<mapsto> \<lparr>out_width = w, out_height = h, out_textures = [special], out_index = 0\<rparr>)"
    by simp
  have t4: "trace ?s4 = trace s @ [Outputs EncodeKeypointSkipOffsets w h [t0], Outputs EncodeKeypointLongSkipOffsets w h [t1, t0], Outputs EncodeKeypointPositions len len [t2, t3], Outputs EncodeKeypointProperties len len [encodedKeypoints], Outputs Identity w h [special]]"
    by simp
  have x4: "textures ?s4 = textures s" by simp
  have p4: "texture_parameters ?s4 = texture_parameters s" by simp
  define s5 where "s5 = invoked Identity [ATex corners] \<lparr>out_width = w, out_height = h, out_textures = [special], out_index = 0\<rparr> ?s4"
  have i5: "invoke Identity [ATex corners] ?s4 = Some (special, s5)"
    by (simp add: invoke_def destination_def s5_def o4)
  have o5: "outputs_of s5 = (outputs_of ?s4)(Identity \<mapsto> \<lparr>out_width = w, out_height = h, out_textures = [special], out_index = 0\<rparr>)"
    by (simp add: s5_def)
  have t5: "trace s5 = trace ?s4 @ [Invoke Identity [ATex corners] special]"
    by (simp add: s5_def destination_def)
  have p5: "texture_parameters s5 = texture_parameters ?s4"
    by (simp add: s5_def)
  have x5: "content (textures s5 special) = content (textures s corners)"
    by (simp add: s5_def destination_def render_def resolve_def)
  define s6 where "s6 = invoked EncodeKeypointSkipOffsets [ATex special, AVec [w, h]] \<lparr>out_width = w, out_height = h, out_textures = [t0], out_index = 0\<rparr> s5"
  have i6: "invoke EncodeKeypointSkipOffsets [ATex special, AVec [w, h]] s5 = Some (t0, s6)"
    by (simp add: invoke_def destination_def s6_def o4 o5)
  have o6: "outputs_of s6 = (outputs_of s5)(EncodeKeypointSkipOffsets \<mapsto> \<lparr>out_width = w, out_height = h, out_textures = [t0], out_index = 0\<rparr>)"
    by (simp add: s6_def)
  have t6: "trace s6 = trace s5 @ [Invoke EncodeKeypointSkipOffsets [ATex special, AVec [w, h]] t0]"
    by (simp add: s6_def destination_def)
  have p6: "texture_parameters s6 = texture_parameters s5"
    by (simp add: s6_def)
  have x6: "textures s6 special = textures s5 special" if "special \<noteq> t0"
    using that by (simp add: s6_def destination_def)
  define s7 where "s7 = invoked EncodeKeypointLongSkipOffsets [ATex t0, AVec [w, h]] \<lparr>out_width = w, out_height = h, out_textures = [t1, t0], out_index = 0\<rparr> s6"
  have i7: "invoke EncodeKeypointLongSkipOffsets [ATex t0, AVec [w, h]] s6 = Some (t1, s7)"
    by (simp add: invoke_def destination_def s7_def o4 o5 o6)
  have o7: "outputs_of s7 = (outputs_of s6)(EncodeKeypointLongSkipOffsets \<mapsto> \<lparr>out_width = w, out_height = h, out_textures = [t1, t0], out_index = 1\<rparr>)"
    by (simp add: s7_def)
  have t7: "trace s7 = trace s6 @ [Invoke EncodeKeypointLongSkipOffsets [ATex t0, AVec [w, h]] t1]"
    by (simp add: s7_def destination_def)
  have p7: "texture_parameters s7 = texture_parameters s6"
    by (simp add: s7_def)
  have x7: "textures s7 special = textures s6 special" if "special \<noteq> t1"
    using that by (simp add: s7_def destination_def)
  define s8 where "s8 = invoked EncodeKeypointLongSkipOffsets [ATex t1, AVec [w, h]] \<lparr>out_width = w, out_height = h, out_textures = [t1, t0], out_index = 1\<rparr> s7"
  have i8: "invoke EncodeKeypointLongSkipOffsets [ATex t1, AVec [w, h]] s7 = Some (t0, s8)"
    by (simp add: invoke_def destination_def s8_def o4 o5 o6 o7)
  have o8: "outputs_of s8 = (outputs_of s7)(EncodeKeypointLongSkipOffsets \<mapsto> \<lparr>out_width = w, out_height = h, out_textures = [t1, t0], out_index = 0\<rparr>)"
    by (simp add: s8_def)
  have t8: "trace s8 = trace s7 @ [Invoke EncodeKeypointLongSkipOffsets [ATex t1, AVec [w, h]] t0]"
    by (simp add: s8_def destination_def)
  have p8: "texture_parameters s8 = texture_parameters s7"
    by (simp add: s8_def)
  have x8: "textures s8 special = textures s7 special" if "special \<noteq> t0"
    using that by (simp add: s8_def destination_def)
  let ?c8 = "clear t3 [] s8"
  have o8c: "outputs_of ?c8 = outputs_of s8" by simp
  have t8c: "trace ?c8 = trace s8 @ [Clear t3 []]" by simp
  have x8c: "textures ?c8 special = textures s8 special" if "special \<noteq> t3" using that by simp
  have p8c: "texture_parameters ?c8 = texture_parameters s8" by simp
  define s9 where "s9 = invoked EncodeKeypointPositions [ATex t0, AVec [w, h], AInt 0, AInt 4, AInt (capacity node), ATex t3, AInt descriptorSize, AInt extraSize, AInt len] \<lparr>out_width = len, out_height = len, out_textures = [t2, t3], out_index = 0\<rparr> ?c8"
  have i9: "invoke EncodeKeypointPositions [ATex t0, AVec [w, h], AInt 0, AInt 4, AInt (capacity node), ATex t3, AInt descriptorSize, AInt extraSize, AInt len] ?c8 = Some (t2, s9)"
    by (simp add: invoke_def destination_def s9_def o4 o5 o6 o7 o8 o8c)
  have o9: "outputs_of s9 = (outputs_of ?c8)(EncodeKeypointPositions \<mapsto> \<lparr>out_width = len, out_height = len, out_textures = [t2, t3], out_index = 1\<rparr>)"
    by (simp add: s9_def)
  have t9: "trace s9 = trace ?c8 @ [Invoke EncodeKeypointPositions [ATex t0, AVec [w, h], AInt 0, AInt 4, AInt (capacity node), ATex t3, AInt descriptorSize, AInt extraSize, AInt len] t2]"
    by (simp add: s9_def destination_def)
  have p9: "texture_parameters s9 = texture_parameters ?c8"
    by (simp add: s9_def)
  have x9: "textures s9 special = textures ?c8 special" if "special \<noteq> t2"
    using that by (simp add: s9_def destination_def)
  define s10 where "s10 = invoked EncodeKeypointPositions [ATex t0, AVec [w, h], AInt 1, AInt 4, AInt (capacity node), ATex t2, AInt descriptorSize, AInt extraSize, AInt len] \<lparr>out_width = len, out_height = len, out_textures = [t2, t3], out_index = 1\<rparr> s9"
  have i10: "invoke EncodeKeypointPositions [ATex t0, AVec [w, h], AInt 1, AInt 4, AInt (capacity node), ATex t2, AInt descriptorSize, AInt extraSize, AInt len] s9 = Some (t3, s10)"
    by (simp add: invoke_def destination_def s10_def o4 o5 o6 o7 o8 o8c o9)
  have o10: "outputs_of s10 = (outputs_of s9)(EncodeKeypointPositions \<mapsto> \<lparr>out_width = len, out_height = len, out_textures = [t2, t3], out_index = 0\<rparr>)"
    by (simp add: s10_def)
  have t10: "trace s10 = trace s9 @ [Invoke EncodeKeypointPositions [ATex t0, AVec [w, h], AInt 1, AInt 4, AInt (capacity node), ATex t2, AInt descriptorSize, AInt extraSize, AInt len] t3]"
    by (simp add: s10_def destination_def)
  have p10: "texture_parameters s10 = texture_parameters s9"
    by (simp add: s10_def)
  have x10: "textures s10 special = textures s9 special" if "special \<noteq> t3"
    using that by (simp add: s10_def destination_def)
  define s11 where "s11 = invoked EncodeKeypointPositions [ATex t0, AVec [w, h], AInt 2, AInt 4, AInt (capacity node), ATex t3, AInt descriptorSize, AInt extraSize, AInt len] \<lparr>out_width = len, out_height = len, out_textures = [t2, t3], out_index = 0\<rparr> s10"
  have i11: "invoke EncodeKeypointPositions [ATex t0, AVec [w, h], AInt 2, AInt 4, AInt (capacity node), ATex t3, AInt descriptorSize, AInt extraSize, AInt len] s10 = Some (t2, s11)"
    by (simp add: invoke_def destination_def s11_def o4 o5 o6 o7 o8 o8c o9 o10)
  have o11: "outputs_of s11 = (outputs_of s10)(EncodeKeypointPositions \<mapsto> \<lparr>out_width = len, out_height = len, out_textures = [t2, t3], out_index = 1\<rparr>)"
    by (simp add: s11_def)
  have t11: "trace s11 = trace s10 @ [Invoke EncodeKeypointPositions [ATex t0, AVec [w, h], AInt 2, AInt 4, AInt (capacity node), ATex t3, AInt descriptorSize, AInt extraSize, AInt len] t2]"
    by (simp add: s11_def destination_def)
  have p11: "texture_parameters s11 = texture_parameters s10"
    by (simp add: s11_def)
  have x11: "textures s11 special = textures s10 special" if "special \<noteq> t2"
    using that by (simp add: s11_def destination_def)
  define s12 where "s12 = invoked EncodeKeypointPositions [ATex t0, AVec [w, h], AInt 3, AInt 4, AInt (capacity node), ATex t2, AInt descriptorSize, AInt extraSize, AInt len] \<lparr>out_width = len, out_height = len, out_textures = [t2, t3], out_index = 1\<rparr> s11"
  have i12: "invoke EncodeKeypointPositions [ATex t0, AVec [w, h], AInt 3, AInt 4, AInt (capacity node), ATex t2, AInt descriptorSize, AInt extraSize, AInt len] s11 = Some (t3, s12)"
    by (simp add: invoke_def destination_def s12_def o4 o5 o6 o7 o8 o8c o9 o10 o11)
  have o12: "outputs_of s12 = (outputs_of s11)(EncodeKeypointPositions \<mapsto> \<lparr>out_width = len, out_height = len, out_textures = [t2, t3], out_index = 0\<rparr>)"
    by (simp add: s12_def)
  have t12: "trace s12 = trace s11 @ [Invoke EncodeKeypointPositions [ATex t0, AVec [w, h], AInt 3, AInt 4, AInt (capacity node), ATex t2, AInt descriptorSize, AInt extraSize, AInt len] t3]"
    by (simp add: s12_def destination_def)
  have p12: "texture_parameters s12 = texture_parameters s11"
    by (simp add: s12_def)
  have x12: "textures s12 special = textures s11 special" if "special \<noteq> t3"
    using that by (simp add: s12_def destination_def)
  define s13 where "s13 = invoked EncodeKeypointProperties [ATex special, ATex t3, AInt descriptorSize, AInt extraSize, AInt len] \<lparr>out_width = len, out_height = len, out_textures = [encodedKeypoints], out_index = 0\<rparr> s12"
  have i13: "invoke EncodeKeypointProperties [ATex special, ATex t3, AInt descriptorSize, AInt extraSize, AInt len] s12 = Some (encodedKeypoints, s13)"
    by (simp add: invoke_def destination_def s13_def o4 o5 o6 o7 o8 o8c o9 o10 o11 o12)
  have o13: "outputs_of s13 = (outputs_of s12)(EncodeKeypointProperties \<mapsto> \<lparr>out_width = len, out_height = len, out_textures = [encodedKeypoints], out_index = 0\<rparr>)"
    by (simp add: s13_def)
  have t13: "trace s13 = trace s12 @ [Invoke EncodeKeypointProperties [ATex special, ATex t3, AInt descriptorSize, AInt extraSize, AInt len] encodedKeypoints]"
    by (simp add: s13_def destination_def)
  have p13: "texture_parameters s13 = texture_parameters s12"
    by (simp add: s13_def)
  have x13: "content (textures s13 encodedKeypoints) = Rendered EncodeKeypointProperties [Sampler (content (textures s12 special)), Sampler (content (textures s12 t3)), Scalar descriptorSize, Scalar extraSize, Scalar len]"
    by (simp add: s13_def destination_def render_def resolve_def)
  have ls: "long_skip_loop 0 [w, h] t0 s6 = Some (t0, s8)"
    by (simp add: long_skip_loop.simps [of 0] long_skip_loop.simps [of "Suc 0"]
        long_skip_loop.simps [of "Suc (Suc 0)"] LONG_SKIP_OFFSET_PASSES_def i7 i8)
  have ps: "positions_loop 0 t0 [w, h] (capacity node) descriptorSize extraSize len t3 ?c8
      = Some (t3, s12)"
    by (simp add: positions_loop.simps [of 0] positions_loop.simps [of "Suc 0"]
        positions_loop.simps [of "Suc (Suc 0)"] positions_loop.simps [of "Suc (Suc (Suc 0))"]
        positions_loop.simps [of "Suc (Suc (Suc (Suc 0)))"] ENCODER_PASSES_def i9 i10 i11 i12)
  have run: "encodeKeypoints g node corners encodedKeypoints descriptorSize extraSize s
      = Some (encodedKeypoints, s13)"
    unfolding encodeKeypoints_def
    by (simp add: len tx Let_def w [symmetric] h [symmetric] i5 i6 ls ps i13)
  have tr: "trace s13 = trace s @
            skip_offset_events w h len (capacity node) descriptorSize extraSize
              (t0, t1, t2, t3, special) corners encodedKeypoints"
    by (simp add: skip_offset_events_def t13 t12 t11 t10 t9 t8c t8 t7 t6 t5 t4)
  have pm: "texture_parameters s13 = texture_parameters s"
    by (simp add: p13 p12 p11 p10 p9 p8c p8 p7 p6 p5 p4)
  have ct: "content (textures s13 encodedKeypoints) =
                Rendered EncodeKeypointProperties
                  [Sampler (content (textures s corners)), Sampler (content (textures s12 t3)),
                   Scalar descriptorSize, Scalar extraSize, Scalar len]"
    if "special \<notin> {t0, t1, t2, t3}"
  proof -
    from that have d: "special \<noteq> t0" "special \<noteq> t1" "special \<noteq> t2" "special \<noteq> t3"
      by simp_all
    have "content (textures s12 special) = content (textures s5 special)"
      by (simp add: x12 x11 x10 x9 x8c x8 x7 x6 d)
    then show ?thesis by (simp add: x13 x5)
  qed
  show ?thesis using run tr pm ct by blast
qed

lemma resolved_slots_disjoint:
  "j \<noteq> k \<Longrightarrow> resolved_slots targetPass cap j \<inter> resolved_slots targetPass cap k = {}"
  by (auto simp add: resolved_slots_def)

lemma sample_length: "encoderLength sample_globals (capacity sample_node) 0 0 = Some 64"
  by (simp add: encoderLength_def sample_globals_def sample_node_def pixelsPerKeypoint_def
      ceil_quot_def ceil_sqrt_def ceil_sqrt_from.simps)

lemma sample_with_special:
  "with_special (internal_textures sample_node) = Some (12, 13, 14, 15, 16)"
  by (simp add: with_special_def internal_textures_def slice_from_def sample_node_def
      NUMBER_OF_INTERNAL_TEXTURES_def)

lemma sample_without_special:
  "without_special (internal_textures sample_node) = Some (12, 13, 14, 15)"
  by (simp add: without_special_def internal_textures_def slice_from_def sample_node_def
      NUMBER_OF_INTERNAL_TEXTURES_def)

text \<open>
  Claim C8 (passes of the skip-offset encoder). \<open>_encodeKeypoints\<close> runs \<open>ENCODER_PASSES = 4\<close>
  position-encoding passes, the pass of index \<open>j = 0, 1, 2, 3\<close> being given \<open>j\<close> and the number
  of passes, and after them one property-encoding pass, the last program invoked. The slots
  resolved in two different passes are disjoint sets.
\<close>

theorem position_passes_then_properties:
  assumes len: "encoderLength g (capacity node) descriptorSize extraSize = Some len"
    and tx: "with_special (internal_textures node) = Some (t0, t1, t2, t3, special)"
  shows "\<exists>s'. encodeKeypoints g node corners encodedKeypoints descriptorSize extraSize s
            = Some (encodedKeypoints, s') \<and>
          ENCODER_PASSES = 4 \<and>
          map pass_arguments
              (passes_of EncodeKeypointPositions (drop (length (trace s)) (trace s')))
            = map (\<lambda>j. Some (AInt (int j), AInt (int ENCODER_PASSES))) [0..<ENCODER_PASSES] \<and>
          invocations (drop (length (trace s)) (trace s'))
            = [Identity, EncodeKeypointSkipOffsets,
               EncodeKeypointLongSkipOffsets, EncodeKeypointLongSkipOffsets,
               EncodeKeypointPositions, EncodeKeypointPositions,
               EncodeKeypointPositions, EncodeKeypointPositions,
               EncodeKeypointProperties] \<and>
          (\<forall>j k. j \<noteq> k \<longrightarrow>
             resolved_slots targetPass (capacity node) j \<inter>
             resolved_slots targetPass (capacity node) k = {})"
proof -
  let ?new = "skip_offset_events (width (textures s corners)) (height (textures s corners)) len
      (capacity node) descriptorSize extraSize (t0, t1, t2, t3, special) corners encodedKeypoints"
  from encodeKeypoints_run [OF len tx refl refl, of corners encodedKeypoints]
  obtain s' where run: "encodeKeypoints g node corners encodedKeypoints descriptorSize extraSize s
            = Some (encodedKeypoints, s')"
    and "trace s' = trace s @ ?new"
    by blast
  then have tr: "drop (length (trace s)) (trace s') = ?new" by simp
  have four: "[0..<ENCODER_PASSES] = [0, 1, 2, 3]"
    by (simp add: ENCODER_PASSES_def upt_rec)
  have passes: "map pass_arguments
              (passes_of EncodeKeypointPositions (drop (length (trace s)) (trace s')))
            = map (\<lambda>j. Some (AInt (int j), AInt (int ENCODER_PASSES))) [0..<ENCODER_PASSES]"
    unfolding four tr by (simp add: skip_offset_events_def pass_arguments_def ENCODER_PASSES_def)
  have inv: "invocations (drop (length (trace s)) (trace s'))
            = [Identity, EncodeKeypointSkipOffsets,
               EncodeKeypointLongSkipOffsets, EncodeKeypointLongSkipOffsets,
               EncodeKeypointPositions, EncodeKeypointPositions,
               EncodeKeypointPositions, EncodeKeypointPositions,
               EncodeKeypointProperties]"
    unfolding tr by (simp add: skip_offset_events_def)
  have "ENCODER_PASSES = 4" by (simp add: ENCODER_PASSES_def)
  with run passes inv show ?thesis
    by (auto simp add: resolved_slots_disjoint simp del: upt_Suc)
qed

theorem position_passes_then_properties_witness:
  "encoderLength sample_globals (capacity sample_node) 0 0 = Some 64 \<and>
   with_special (internal_textures sample_node) = Some (12, 13, 14, 15, 16) \<and>
   (\<exists>s'. encodeKeypoints sample_globals sample_node 10 11 0 0 (sample_gpu (Mask [(10, 20)]))
            = Some (11, s') \<and>
      invocations (drop (length (trace (sample_gpu (Mask [(10, 20)])))) (trace s'))
            = [Identity, EncodeKeypointSkipOffsets,
               EncodeKeypointLongSkipOffsets, EncodeKeypointLongSkipOffsets,
               EncodeKeypointPositions, EncodeKeypointPositions,
               EncodeKeypointPositions, EncodeKeypointPositions,
               EncodeKeypointProperties]) \<and>
   (0::int) \<noteq> 1 \<and>
   resolved_slots (\<lambda>q. q div 512) (capacity sample_node) 0 \<inter>
   resolved_slots (\<lambda>q. q div 512) (capacity sample_node) 1 = {}"
proof -
  from position_passes_then_properties [OF sample_length sample_with_special,
      of 10 11 "sample_gpu (Mask [(10, 20)])" "\<lambda>q. q div 512"]
  obtain s' where run: "encodeKeypoints sample_globals sample_node 10 11 0 0
        (sample_gpu (Mask [(10, 20)])) = Some (11, s')"
    and inv: "invocations (drop (length (trace (sample_gpu (Mask [(10, 20)])))) (trace s'))
            = [Identity, EncodeKeypointSkipOffsets,
               EncodeKeypointLongSkipOffsets, EncodeKeypointLongSkipOffsets,
               EncodeKeypointPositions, EncodeKeypointPositions,
               EncodeKeypointPositions, EncodeKeypointPositions,
               EncodeKeypointProperties]"
    and dis: "\<forall>j k. j \<noteq> k \<longrightarrow>
               resolved_slots (\<lambda>q. q div 512) (capacity sample_node) j \<inter>
               resolved_slots (\<lambda>q. q div 512) (capacity sample_node) k = {}"
    by (elim exE conjE) (rule that, assumption+)
  from dis have "resolved_slots (\<lambda>q. q div 512) (capacity sample_node) 0 \<inter>
      resolved_slots (\<lambda>q. q div 512) (capacity sample_node) 1 = {}"
    by simp
  moreover have "\<exists>s'. encodeKeypoints sample_globals sample_node 10 11 0 0
        (sample_gpu (Mask [(10, 20)])) = Some (11, s') \<and>
      invocations (drop (length (trace (sample_gpu (Mask [(10, 20)])))) (trace s'))
            = [Identity, EncodeKeypointSkipOffsets,
               EncodeKeypointLongSkipOffsets, EncodeKeypointLongSkipOffsets,
               EncodeKeypointPositions, EncodeKeypointPositions,
               EncodeKeypointPositions, EncodeKeypointPositions,
               EncodeKeypointProperties]"
    using run inv by (intro exI conjI)
  ultimately show ?thesis using sample_length sample_with_special by simp
qed

subsection \<open>The prefix-sum encoder\<close>

text \<open>
  One run of \<open>_encodeKeypoints2\<close>: the sum table and the lookup table are computed, and the
  texture returned is the output texture resized to the encoder length and cleared to
  \<open>(1, 1, 1, 1)\<close>, whatever the input.
\<close>

lemma encodeKeypoints2_run:
  assumes len: "encoderLength g (capacity node) descriptorSize extraSize = Some len"
    and tx: "without_special (internal_textures node) = Some (t0, t1, t2, t3)"
  shows "\<exists>s'. encodeKeypoints2 g node corners encodedKeypoints descriptorSize extraSize s
            = Some (encodedKeypoints, s') \<and>
          width (textures s' encodedKeypoints) = len \<and>
          height (textures s' encodedKeypoints) = len \<and>
          content (textures s' encodedKeypoints) = Cleared [1, 1, 1, 1] \<and>
          texture_parameters s' = texture_parameters s"
proof -
  define exp2 where "exp2 = ceil_log2 (width (textures s corners) * height (textures s corners))"
  define pw where "pw = shl1 (exp2 div 2)"
  define ph where "ph = shl1 (exp2 div 2 + exp2 mod 2)"
  let ?s4 = "outputs ComputeSumTable pw ph [t2, t3]
      (outputs InitSumTable pw ph [t3]
        (outputs ComputeLookupOfLocations pw ph [t0, t1]
          (outputs InitLookupOfLocations pw ph [t1] s)))"
  define s5 where "s5 = invoked InitSumTable [ATex corners, AInt pw]
      \<lparr>out_width = pw, out_height = ph, out_textures = [t3], out_index = 0\<rparr> ?s4"
  have i5: "invoke InitSumTable [ATex corners, AInt pw] ?s4 = Some (t3, s5)"
    by (simp add: invoke_def destination_def s5_def)
  define s6 where "s6 = invoked InitLookupOfLocations [ATex corners, AInt pw]
      \<lparr>out_width = pw, out_height = ph, out_textures = [t1], out_index = 0\<rparr> s5"
  have i6: "invoke InitLookupOfLocations [ATex corners, AInt pw] s5 = Some (t1, s6)"
    by (simp add: invoke_def destination_def s6_def s5_def)
  have p6: "texture_parameters s6 = texture_parameters s"
    by (simp add: s6_def s5_def)
  have c6: "configured ComputeSumTable s6" "configured ComputeLookupOfLocations s6"
    by (simp_all add: configured_def s6_def s5_def)
  from tables_loop_Some [OF c6, of 0 exp2 pw t3 t1]
  obtain sumTable1 lookupTable1 s7
    where tl: "tables_loop 0 exp2 pw t3 t1 s6 = Some (sumTable1, lookupTable1, s7)"
    by auto
  have p7: "texture_parameters s7 = texture_parameters s"
    using tables_loop_parameters [OF tl] p6 by simp
  let ?s9 = "clear encodedKeypoints [1, 1, 1, 1] (resize encodedKeypoints len len s7)"
  have run: "encodeKeypoints2 g node corners encodedKeypoints descriptorSize extraSize s
      = Some (encodedKeypoints, ?s9)"
    unfolding encodeKeypoints2_def
    by (simp add: len tx Let_def exp2_def [symmetric] pw_def [symmetric] ph_def [symmetric]
        i5 i6 tl)
  have "width (textures ?s9 encodedKeypoints) = len"
    and "height (textures ?s9 encodedKeypoints) = len"
    and "content (textures ?s9 encodedKeypoints) = Cleared [1, 1, 1, 1]"
    and "texture_parameters ?s9 = texture_parameters s"
    by (simp_all add: p7)
  with run show ?thesis by blast
qed

lemma encodeKeypoints2_sample:
  "result_content (encodeKeypoints2 sample_globals sample_node 10 11 0 0 (sample_gpu c))
     = Some (Cleared [1, 1, 1, 1])"
  using encodeKeypoints2_run [OF sample_length sample_without_special, of 10 11 "sample_gpu c"]
  by (auto simp add: result_content_def)

lemma encodeKeypoints_sample:
  "\<exists>positions. result_content
       (encodeKeypoints sample_globals sample_node 10 11 0 0 (sample_gpu c))
     = Some (Rendered EncodeKeypointProperties
               [Sampler c, Sampler positions, Scalar 0, Scalar 0, Scalar 64])"
proof -
  have d: "(16::nat) \<notin> {12, 13, 14, 15}" by simp
  have c: "content (textures (sample_gpu c) 10) = c" by (simp add: sample_gpu_def)
  from encodeKeypoints_run [OF sample_length sample_with_special refl refl,
      of 10 11 "sample_gpu c"] d
  obtain s' positions where "encodeKeypoints sample_globals sample_node 10 11 0 0 (sample_gpu c)
      = Some (11, s')"
    and "content (textures s' 11) = Rendered EncodeKeypointProperties
        [Sampler (content (textures (sample_gpu c) 10)), Sampler positions,
         Scalar 0, Scalar 0, Scalar 64]"
    by blast
  then show ?thesis by (auto simp add: result_content_def c)
qed

text \<open>
  Claim C2 (the two compaction variants hold the same keypoints). The code evaluated on a
  64 by 64 input with one corner at \<open>(10, 20)\<close> and on the input with no corner, capacity 2048:
  the prefix-sum variant returns the same cleared texture for both, so its output carries no
  coordinate of the input; the skip-offset variant returns the property-encoding pass over the
  input, which differs for the two inputs and from the cleared texture.
\<close>

theorem prefix_sum_encoder_ignores_corners:
  "result_content (encodeKeypoints2 sample_globals sample_node 10 11 0 0
       (sample_gpu (Mask [(10, 20)]))) = Some (Cleared [1, 1, 1, 1]) \<and>
   result_content (encodeKeypoints2 sample_globals sample_node 10 11 0 0
       (sample_gpu (Mask []))) = Some (Cleared [1, 1, 1, 1]) \<and>
   result_content (encodeKeypoints sample_globals sample_node 10 11 0 0
       (sample_gpu (Mask [(10, 20)])))
     \<noteq> result_content (encodeKeypoints sample_globals sample_node 10 11 0 0
       (sample_gpu (Mask []))) \<and>
   result_content (encodeKeypoints sample_globals sample_node 10 11 0 0
       (sample_gpu (Mask [(10, 20)])))
     \<noteq> result_content (encodeKeypoints2 sample_globals sample_node 10 11 0 0
       (sample_gpu (Mask [(10, 20)])))"
proof -
  from encodeKeypoints_sample [of "Mask [(10, 20)]"] obtain p1
    where r1: "result_content (encodeKeypoints sample_globals sample_node 10 11 0 0
       (sample_gpu (Mask [(10, 20)])))
     = Some (Rendered EncodeKeypointProperties
               [Sampler (Mask [(10, 20)]), Sampler p1, Scalar 0, Scalar 0, Scalar 64])"
    by blast
  from encodeKeypoints_sample [of "Mask []"] obtain p0
    where r0: "result_content (encodeKeypoints sample_globals sample_node 10 11 0 0
       (sample_gpu (Mask [])))
     = Some (Rendered EncodeKeypointProperties
               [Sampler (Mask []), Sampler p0, Scalar 0, Scalar 0, Scalar 64])"
    by blast
  show ?thesis
    by (simp add: encodeKeypoints2_sample r1 r0)
qed

subsection \<open>Initialisation and release of a node\<close>

lemma acquire_frame:
  "textures (snd (acquire s)) = textures s"
  "binding (snd (acquire s)) = binding s"
  by (simp_all add: acquire_def split: list.splits)

lemma acquire_many_frame:
  "length (fst (acquire_many n s)) = n \<and>
   textures (snd (acquire_many n s)) = textures s \<and>
   binding (snd (acquire_many n s)) = binding s"
proof (induction n arbitrary: s)
  case 0
  show ?case by simp
next
  case (Suc n)
  obtain t s1 where a: "acquire s = (t, s1)" by (cases "acquire s")
  obtain ts s2 where b: "acquire_many n s1 = (ts, s2)" by (cases "acquire_many n s1")
  from Suc [of s1] b acquire_frame [of s] a show ?case by simp
qed

lemma free_all_frame:
  "textures (free_all xs s) = textures s \<and>
   trace (free_all xs s) = trace s @ map Free (held xs) \<and>
   set (pool (free_all xs s)) = set (held xs) \<union> set (pool s)"
  by (induction xs s rule: free_all.induct) (auto simp add: free_def)

lemma setupSpecialTexture_last:
  assumes "tex node \<noteq> []" and "last (tex node) = Some t"
  shows "setupSpecialTexture node pname param s =
    Some (parameters (textures s t) pname,
      s\<lparr>textures := (textures s)
           (t := (textures s t)\<lparr>parameters := (parameters (textures s t))(pname := param)\<rparr>),
        binding := None,
        trace := trace s @ [TexParameteri t pname param]\<rparr>)"
  using assms
  by (simp add: setupSpecialTexture_def bindTexture_def getTexParameter_def texParameteri_def)

lemma held_map_Some: "held (map Some ts) = ts"
  by (induction ts) simp_all

lemma last_held: "xs \<noteq> [] \<Longrightarrow> last xs = Some t \<Longrightarrow> t \<in> set (held xs)"
  by (induction xs rule: held.induct) (auto split: if_splits)

lemma constructed_has_textures:
  "tex (SpeedyPipelineNodeKeypointDetector texCount) \<noteq> []"
  "tex (SpeedyPipelineNodeMultiscaleKeypointDetector texCount) \<noteq> []"
  by (simp_all add: SpeedyPipelineNodeKeypointDetector_def
      SpeedyPipelineNodeMultiscaleKeypointDetector_def NUMBER_OF_INTERNAL_TEXTURES_def
      detector_node.defs)

text \<open>
  Claim C6 (restore on release). For a node with at least one work texture, \<open>init\<close> succeeds
  and records in \<open>_oldWrapS\<close> the wrap mode that the special texture (the last work texture)
  had, then sets it to \<open>REPEAT\<close>. From any later state in which the parameters of the special
  texture are as \<open>init\<close> left them (the encoders leave them alone, see
  \<open>encodeKeypoints_run\<close>, \<open>encodeKeypoints2_run\<close> and \<open>encodeZeroKeypoints_parameters\<close>),
  \<open>release\<close> succeeds; its events are
  the restoring \<open>texParameteri\<close> first, then the return of the work textures to the pool;
  afterwards the special texture is in the pool and all its parameters are what they were before
  \<open>init\<close>.
\<close>

theorem release_restores_wrap_mode:
  assumes "tex node \<noteq> []"
  shows "\<exists>node1 s1 special.
           init node s = Some (node1, s1) \<and>
           last (tex node1) = Some special \<and>
           oldWrapS node1 = parameters (textures s special) TEXTURE_WRAP_S \<and>
           parameters (textures s1 special)
             = (parameters (textures s special))(TEXTURE_WRAP_S := REPEAT) \<and>
           (\<forall>s1'. parameters (textures s1' special) = parameters (textures s1 special) \<longrightarrow>
              (\<exists>node2 s2.
                 release node1 s1' = Some (node2, s2) \<and>
                 parameters (textures s2 special) = parameters (textures s special) \<and>
                 trace s2 = trace s1' @
                   TexParameteri special TEXTURE_WRAP_S (oldWrapS node1)
                     # map Free (held (tex node1)) \<and>
                 special \<in> set (pool s2)))"
proof -
  obtain ts s0 where acq: "acquire_many (length (tex node)) s = (ts, s0)"
    by (cases "acquire_many (length (tex node)) s")
  from acquire_many_frame [of "length (tex node)" s] acq
  have len: "length ts = length (tex node)" and tx0: "textures s0 = textures s" by simp_all
  from len assms have ne: "ts \<noteq> []" by auto
  let ?special = "last ts"
  let ?node0 = "node\<lparr>tex := map Some ts\<rparr>"
  have sup: "super_init node s = (?node0, s0)" by (simp add: super_init_def acq)
  have lst: "last (tex ?node0) = Some ?special" using ne by (simp add: last_map)
  have ne0: "tex ?node0 \<noteq> []" using ne by simp
  let ?old = "parameters (textures s ?special) TEXTURE_WRAP_S"
  let ?s1 = "s0\<lparr>textures := (textures s0)
           (?special := (textures s0 ?special)
              \<lparr>parameters := (parameters (textures s0 ?special))(TEXTURE_WRAP_S := REPEAT)\<rparr>),
        binding := None,
        trace := trace s0 @ [TexParameteri ?special TEXTURE_WRAP_S REPEAT]\<rparr>"
  let ?node1 = "?node0\<lparr>oldWrapS := ?old\<rparr>"
  have ini: "init node s = Some (?node1, ?s1)"
    by (simp add: init_def sup setupSpecialTexture_last [OF ne0 lst] tx0)
  have a: "last (tex ?node1) = Some ?special" using lst by simp
  have b: "oldWrapS ?node1 = ?old" by simp
  have c: "parameters (textures ?s1 ?special)
             = (parameters (textures s ?special))(TEXTURE_WRAP_S := REPEAT)"
    by (simp add: tx0)
  have d: "\<exists>node2 s2.
                 release ?node1 s1' = Some (node2, s2) \<and>
                 parameters (textures s2 ?special) = parameters (textures s ?special) \<and>
                 trace s2 = trace s1' @
                   TexParameteri ?special TEXTURE_WRAP_S (oldWrapS ?node1)
                     # map Free (held (tex ?node1)) \<and>
                 ?special \<in> set (pool s2)"
    if same: "parameters (textures s1' ?special) = parameters (textures ?s1 ?special)" for s1'
  proof -
    have ne1: "tex ?node1 \<noteq> []" using ne by simp
    let ?s2 = "s1'\<lparr>textures := (textures s1')
           (?special := (textures s1' ?special)
              \<lparr>parameters := (parameters (textures s1' ?special))(TEXTURE_WRAP_S := ?old)\<rparr>),
        binding := None,
        trace := trace s1' @ [TexParameteri ?special TEXTURE_WRAP_S ?old]\<rparr>"
    have rel: "release ?node1 s1' = Some (super_release ?node1 ?s2)"
      by (simp add: release_def setupSpecialTexture_last [OF ne1 a])
    let ?s3 = "free_all (tex ?node1) ?s2"
    have sr: "super_release ?node1 ?s2
        = (?node1\<lparr>tex := replicate (length (tex ?node1)) None\<rparr>, ?s3)"
      by (simp add: super_release_def)
    from free_all_frame [of "tex ?node1" ?s2]
    have f1: "textures ?s3 = textures ?s2"
      and f2: "trace ?s3 = trace ?s2 @ map Free (held (tex ?node1))"
      and f3: "set (pool ?s3) = set (held (tex ?node1)) \<union> set (pool ?s2)"
      by simp_all
    have "parameters (textures ?s3 ?special) = parameters (textures ?s2 ?special)"
      by (simp only: f1)
    also have "\<dots> = (parameters (textures s1' ?special))(TEXTURE_WRAP_S := ?old)"
      by simp
    also have "\<dots> = ((parameters (textures s ?special))(TEXTURE_WRAP_S := REPEAT))
        (TEXTURE_WRAP_S := ?old)"
      by (simp only: same c)
    also have "\<dots> = parameters (textures s ?special)"
      by simp
    finally have p: "parameters (textures ?s3 ?special) = parameters (textures s ?special)" .
    have t: "trace ?s3 = trace s1' @
                   TexParameteri ?special TEXTURE_WRAP_S (oldWrapS ?node1)
                     # map Free (held (tex ?node1))"
      unfolding f2 by simp
    have m: "?special \<in> set (pool ?s3)"
      unfolding f3 using last_held [OF ne1 a] by simp
    from rel sr p t m show ?thesis by simp
  qed
  from ini a b c d show ?thesis by blast
qed

lemma init_sample:
  "map_option fst (init (SpeedyPipelineNodeKeypointDetector 0) (sample_gpu c)) = Some sample_node"
  by (simp add: init_def super_init_def SpeedyPipelineNodeKeypointDetector_def
      NUMBER_OF_INTERNAL_TEXTURES_def DEFAULT_CAPACITY_def eval_nat_numeral acquire_def
      sample_gpu_def setupSpecialTexture_def bindTexture_def getTexParameter_def
      texParameteri_def sample_node_def)

theorem release_restores_wrap_mode_witness:
  "tex (SpeedyPipelineNodeKeypointDetector 0) \<noteq> [] \<and>
   (\<exists>s1 s1' node2 s2.
      init (SpeedyPipelineNodeKeypointDetector 0) (sample_gpu (Mask [(10, 20)]))
        = Some (sample_node, s1) \<and>
      parameters (textures s1 16) TEXTURE_WRAP_S = REPEAT \<and>
      encodeKeypoints sample_globals sample_node 10 11 0 0 s1 = Some (11, s1') \<and>
      parameters (textures s1' 16) = parameters (textures s1 16) \<and>
      release sample_node s1' = Some (node2, s2) \<and>
      parameters (textures s2 16) TEXTURE_WRAP_S = 33071 \<and>
      16 \<in> set (pool s2))"
proof -
  let ?node = "SpeedyPipelineNodeKeypointDetector 0"
  let ?s = "sample_gpu (Mask [(10, 20)])"
  have ne: "tex ?node \<noteq> []"
    by (simp add: SpeedyPipelineNodeKeypointDetector_def NUMBER_OF_INTERNAL_TEXTURES_def)
  from release_restores_wrap_mode [OF ne, of ?s]
  obtain node1 s1 special where ini: "init ?node ?s = Some (node1, s1)"
    and lst: "last (tex node1) = Some special"
    and rep: "parameters (textures s1 special)
             = (parameters (textures ?s special))(TEXTURE_WRAP_S := REPEAT)"
    and rel: "\<forall>s1'. parameters (textures s1' special) = parameters (textures s1 special) \<longrightarrow>
              (\<exists>node2 s2.
                 release node1 s1' = Some (node2, s2) \<and>
                 parameters (textures s2 special) = parameters (textures ?s special) \<and>
                 trace s2 = trace s1' @
                   TexParameteri special TEXTURE_WRAP_S (oldWrapS node1)
                     # map Free (held (tex node1)) \<and>
                 special \<in> set (pool s2))"
    by (elim exE conjE) (rule that, assumption+)
  from ini init_sample [of "Mask [(10, 20)]"] have n1: "node1 = sample_node" by simp
  with lst have sp: "special = 16" by (simp add: sample_node_def)
  from encodeKeypoints_run [OF sample_length sample_with_special refl refl, of 10 11 s1]
  obtain s1' where enc: "encodeKeypoints sample_globals sample_node 10 11 0 0 s1 = Some (11, s1')"
    and par: "texture_parameters s1' = texture_parameters s1"
    by (elim exE conjE) (rule that, assumption+)
  from par have same: "parameters (textures s1' 16) = parameters (textures s1 16)"
    by (simp add: texture_parameters_def fun_eq_iff)
  with rel sp obtain node2 s2 where r: "release node1 s1' = Some (node2, s2)"
    and p: "parameters (textures s2 16) = parameters (textures ?s 16)"
    and m: "16 \<in> set (pool s2)"
    by blast
  have a: "parameters (textures s1 16) TEXTURE_WRAP_S = REPEAT" using rep sp by simp
  have b: "parameters (textures s2 16) TEXTURE_WRAP_S = 33071"
    by (simp add: p sample_gpu_def)
  from ini n1 a enc same r b m
  have "\<exists>s1 s1' node2 s2.
      init ?node ?s = Some (sample_node, s1) \<and>
      parameters (textures s1 16) TEXTURE_WRAP_S = REPEAT \<and>
      encodeKeypoints sample_globals sample_node 10 11 0 0 s1 = Some (11, s1') \<and>
      parameters (textures s1' 16) = parameters (textures s1 16) \<and>
      release sample_node s1' = Some (node2, s2) \<and>
      parameters (textures s2 16) TEXTURE_WRAP_S = 33071 \<and>
      16 \<in> set (pool s2)"
    by (intro exI [of _ s1] exI [of _ s1'] exI [of _ node2] exI [of _ s2]) simp
  with ne show ?thesis by (rule conjI)
qed

end
